theory Spec2Isabelle
  imports
    Main
    "HOL-Library.AList"
    "HOL-Library.Char_ord"
    "HOL-Library.List_Lexorder"
    "HOL-Library.Product_Lexorder"
    "HOL-Library.Multiset"
begin

section \<open>Values and the Python runtime\<close>

text \<open>
  The two scripts \<^verbatim>\<open>scripts/build_mdx_from_data.py\<close> and
  \<^verbatim>\<open>scripts/build_sqlite_from_data.py\<close> read NDJSON shards, validate each line and
  either render it to markup (document pipeline) or upsert the raw line into a table
  (relational pipeline).

  A Python \<^verbatim>\<open>str\<close> is a \<^typ>\<open>string\<close> holding its UTF-8 bytes: equality, emptiness,
  concatenation and the replacement of the ASCII characters that \<^verbatim>\<open>html.escape\<close> touches
  are the same on bytes as on code points, and the lexicographic order of UTF-8 byte
  sequences is the order of the code point sequences that Python compares.

  A value produced by \<^verbatim>\<open>json.loads\<close> is a \<open>json\<close>. An object keeps its items in
  insertion order, as a Python \<^verbatim>\<open>dict\<close> does; its keys are strings. A float is carried as
  the text \<^verbatim>\<open>str()\<close> gives for it, the only thing either script reads from a float.
\<close>

datatype json =
    JNull
  | JBool bool
  | JInt int
  | JFloat string
  | JStr string
  | JList "json list"
  | JDict "(string \<times> json) list"

text \<open>
  What the scripts take from the Python runtime and cannot be read off their source:
  \<^verbatim>\<open>str.strip()\<close> and \<^verbatim>\<open>str.lower()\<close> (both driven by the Unicode tables),
  \<^verbatim>\<open>str()\<close> of a list or dict (Python's \<^verbatim>\<open>repr\<close>), and \<^verbatim>\<open>json.loads\<close>. Every function
  below takes them as the parameter \<open>L\<close>; every theorem holds for all of them.

  \<^verbatim>\<open>json.loads\<close> returns a value or raises. On text that is not JSON it raises
  \<^verbatim>\<open>JSONDecodeError\<close>, whose \<^verbatim>\<open>msg\<close> the scripts print. On JSON text it cannot load it
  raises another exception: \<^verbatim>\<open>ValueError\<close> for an integer of more digits than the
  interpreter converts (4300 by default), \<^verbatim>\<open>RecursionError\<close> for nesting beyond the
  recursion limit. \<open>Raised\<close> carries the text of such an exception.
\<close>

datatype loads_error = JSONDecodeError string | Raised string

record pylib =
  str_strip :: "string \<Rightarrow> string"
  str_lower :: "string \<Rightarrow> string"
  str_of_container :: "json \<Rightarrow> string"
  json_loads :: "string \<Rightarrow> loads_error + json"

text \<open>\<^verbatim>\<open>d.get(k)\<close>: the value stored under \<open>k\<close>, \<^verbatim>\<open>None\<close> when the key is missing.\<close>

definition dict_get :: "(string \<times> json) list \<Rightarrow> string \<Rightarrow> json" where
  "dict_get d k = (case map_of d k of None \<Rightarrow> JNull | Some v \<Rightarrow> v)"

text \<open>\<^verbatim>\<open>str(n)\<close> of an integer: its decimal digits, with a minus sign when negative.\<close>

definition digit_char :: "nat \<Rightarrow> char" where
  "digit_char n = char_of (48 + n)"

fun str_nat :: "nat \<Rightarrow> string" where
  "str_nat n =
     (if n < 10 then [digit_char n] else str_nat (n div 10) @ [digit_char (n mod 10)])"

declare str_nat.simps [simp del]

definition str_int :: "int \<Rightarrow> string" where
  "str_int i = (if i < 0 then CHR ''-'' # str_nat (nat (- i)) else str_nat (nat i))"

definition str_bool :: "bool \<Rightarrow> string" where
  "str_bool b = (if b then ''True'' else ''False'')"

text \<open>\<^verbatim>\<open>str(value)\<close> for a parsed JSON value.\<close>

definition py_str :: "pylib \<Rightarrow> json \<Rightarrow> string" where
  "py_str L v =
     (case v of
        JNull \<Rightarrow> ''None''
      | JBool b \<Rightarrow> str_bool b
      | JInt i \<Rightarrow> str_int i
      | JFloat f \<Rightarrow> f
      | JStr s \<Rightarrow> s
      | JList xs \<Rightarrow> str_of_container L v
      | JDict d \<Rightarrow> str_of_container L v)"

text \<open>\<^verbatim>\<open>sep.join(parts)\<close>.\<close>

fun join :: "string \<Rightarrow> string list \<Rightarrow> string" where
  "join sep [] = []"
| "join sep [p] = p"
| "join sep (p # q # ps) = p @ sep @ join sep (q # ps)"

text \<open>The comprehension \<^verbatim>\<open>[part for part in parts if part]\<close>: a string is falsy when empty.\<close>

definition nonempty :: "string list \<Rightarrow> string list" where
  "nonempty parts = filter (\<lambda>part. part \<noteq> []) parts"

text \<open>
  \<^verbatim>\<open>html.escape(s)\<close> with its default \<^verbatim>\<open>quote=True\<close>: five \<^verbatim>\<open>str.replace\<close> calls in this
  order, the ampersand first.
\<close>

definition replace_char :: "char \<Rightarrow> string \<Rightarrow> string \<Rightarrow> string" where
  "replace_char c r s = concat (map (\<lambda>x. if x = c then r else [x]) s)"

definition html_escape :: "string \<Rightarrow> string" where
  "html_escape s =
     replace_char (CHR 0x27) ''&#x27;''
       (replace_char (CHR 0x22) ''&quot;''
         (replace_char CHR ''>'' ''&gt;''
           (replace_char CHR ''<'' ''&lt;''
             (replace_char CHR ''&'' ''&amp;'' s))))"

section \<open>Text normalisation (build\_mdx\_from\_data.py, lines 58--88)\<close>

definition text_from_value :: "pylib \<Rightarrow> json \<Rightarrow> string" where
  "text_from_value L v =
     (case v of
        JStr s \<Rightarrow> s
      | JNull \<Rightarrow> []
      | _ \<Rightarrow> py_str L v)"

lemma size_map_of:
  "map_of d k = Some v \<Longrightarrow> size v < Suc (size_list (size_prod (\<lambda>_. 0) size) d)"
  by (induction d) (auto split: if_splits)

lemma size_list_item:
  "x \<in> set items \<Longrightarrow> size (x :: json) < Suc (size_list size items)"
  by (induction items) auto

lemma size_dict_item:
  "(k, v) \<in> set d \<Longrightarrow> size (v :: json) < Suc (size_list (size_prod (\<lambda>_. 0) size) d)"
  by (induction d) auto

lemma size_dict_get:
  "size (dict_get d k) < Suc (size_list (size_prod (\<lambda>_. 0) size) d)"
  by (auto simp: dict_get_def size_map_of split: option.splits)

text \<open>
  \<open>compact_text\<close> dispatches on the runtime type in the order of the source. A bool is
  an \<^verbatim>\<open>int\<close> in Python and takes the \<^verbatim>\<open>str(value)\<close> branch, giving \<^verbatim>\<open>True\<close> or
  \<^verbatim>\<open>False\<close>. The last line of the source, \<^verbatim>\<open>str(value).strip()\<close>, is reached by no value
  that \<^verbatim>\<open>json.loads\<close> returns.
\<close>

function compact_text :: "pylib \<Rightarrow> json \<Rightarrow> string" where
  "compact_text L JNull = []"
| "compact_text L (JStr s) = str_strip L s"
| "compact_text L (JInt i) = str_int i"
| "compact_text L (JFloat f) = f"
| "compact_text L (JBool b) = str_bool b"
| "compact_text L (JList items) = join ''; '' (nonempty (map (compact_text L) items))"
| "compact_text L (JDict d) =
     (let en = compact_text L (dict_get d ''en'');
          zh = compact_text L (dict_get d ''zh'')
      in if en \<noteq> [] \<or> zh \<noteq> [] then join '' '' (nonempty [en, zh])
         else join ''; ''
           (map (\<lambda>(key, child_text). key @ '': '' @ child_text)
             (filter (\<lambda>(key, child_text). child_text \<noteq> [])
               (map (\<lambda>(key, child). (key, compact_text L child)) d))))"
  by pat_completeness auto
termination
  by (relation "measure (\<lambda>(L, v). size v)") (auto simp: size_dict_get size_list_item size_dict_item)

section \<open>Rendering one entry (build\_mdx\_from\_data.py, lines 14--17 and 91--196)\<close>

definition PHONETIC_LABEL_ZH :: "(string \<times> string) list" where
  "PHONETIC_LABEL_ZH =
     [(''uk'', [CHR 0xE8, CHR 0x8B, CHR 0xB1, CHR 0xE5, CHR 0xBC, CHR 0x8F]),
      (''us'', [CHR 0xE7, CHR 0xBE, CHR 0x8E, CHR 0xE5, CHR 0xBC, CHR 0x8F])]"

text \<open>The two section titles passed by \<open>render_entry\<close>, as UTF-8.\<close>

definition SYNONYMS_TITLE :: string where
  "SYNONYMS_TITLE =
     [CHR 0xE7, CHR 0x9B, CHR 0xB8, CHR 0xE5, CHR 0x85, CHR 0xB3, CHR 0xE8, CHR 0xAF, CHR 0x8D]"

definition EXTRA_EXPLANATION_TITLE :: string where
  "EXTRA_EXPLANATION_TITLE =
     [CHR 0xE9, CHR 0xA2, CHR 0x9D, CHR 0xE5, CHR 0xA4, CHR 0x96,
      CHR 0xE8, CHR 0xAF, CHR 0xB4, CHR 0xE6, CHR 0x98, CHR 0x8E]"

text \<open>Lines 92--99 of \<open>render_string_list_section\<close>: the items of the section.\<close>

definition section_items :: "pylib \<Rightarrow> json \<Rightarrow> string list" where
  "section_items L v =
     (case v of
        JStr s \<Rightarrow> (if str_strip L s \<noteq> [] then [str_strip L s] else [])
      | JList xs \<Rightarrow> nonempty (map (compact_text L) xs)
      | _ \<Rightarrow> (let text = compact_text L v in if text \<noteq> [] then [text] else []))"

definition render_string_list_section :: "pylib \<Rightarrow> string \<Rightarrow> json \<Rightarrow> string" where
  "render_string_list_section L title_zh v =
     (let items = section_items L v
      in if items = [] then []
         else ''<section class=\"section\">''
            @ ''<h2 class=\"title\">'' @ html_escape title_zh @ ''</h2>''
            @ ''<ul>''
            @ concat (map (\<lambda>item. ''<li>'' @ html_escape item @ ''</li>'') items)
            @ ''</ul>''
            @ ''</section>'')"

text \<open>\<^verbatim>\<open>PHONETIC_LABEL_ZH.get(str(key).lower(), str(key))\<close>; a key of an object is a string.\<close>

definition phonetic_label :: "pylib \<Rightarrow> string \<Rightarrow> string" where
  "phonetic_label L key =
     (case map_of PHONETIC_LABEL_ZH (str_lower L key) of
        Some label \<Rightarrow> label
      | None \<Rightarrow> key)"

definition render_phonetic :: "pylib \<Rightarrow> json \<Rightarrow> string" where
  "render_phonetic L v =
     (case v of
        JNull \<Rightarrow> []
      | JStr s \<Rightarrow> str_strip L s
      | JList xs \<Rightarrow> join '' / '' (nonempty (map (compact_text L) xs))
      | JDict d \<Rightarrow>
          join '' | ''
            (map (\<lambda>(key, text). phonetic_label L key @ '': '' @ text)
              (filter (\<lambda>(key, text). text \<noteq> [])
                (map (\<lambda>(key, child). (key, compact_text L child)) d)))
      | _ \<Rightarrow> compact_text L v)"

text \<open>
  \<open>render_entry\<close> appends to the list \<^verbatim>\<open>blocks\<close> and joins it at the end. Its body is
  split here where the source has its blank lines: lines 142--147 (the summary text),
  140--150 (the phonetic/summary line), 156--181 (one item of the definitions), 152--183
  (the definitions section), 185--193 (the two titled sections).
\<close>

definition summary_text :: "pylib \<Rightarrow> (string \<times> json) list \<Rightarrow> string" where
  "summary_text L payload =
     (case dict_get payload ''summary'' of
        JDict d \<Rightarrow> str_strip L (text_from_value L (dict_get d ''zh''))
      | JStr s \<Rightarrow> str_strip L s
      | _ \<Rightarrow> [])"

definition phonetic_summary_blocks :: "pylib \<Rightarrow> (string \<times> json) list \<Rightarrow> string list" where
  "phonetic_summary_blocks L payload =
     (let phonetic_text = render_phonetic L (dict_get payload ''phonetic'');
          summary_zh = summary_text L payload;
          line_parts = nonempty [phonetic_text, summary_zh]
      in if line_parts \<noteq> []
         then [''<div class=\"phonetic-summary\">'' @ html_escape (join '' '' line_parts) @ ''</div>'']
         else [])"

definition example_blocks :: "pylib \<Rightarrow> json \<Rightarrow> string list" where
  "example_blocks L ex =
     (let ex_text = compact_text L ex
      in if ex_text \<noteq> [] then [''<li>'' @ html_escape ex_text @ ''</li>''] else [])"

definition definition_item_blocks :: "pylib \<Rightarrow> json \<Rightarrow> string list" where
  "definition_item_blocks L item =
     (case item of
        JDict d \<Rightarrow>
          [''<li>'']
          @ (let pos = compact_text L (dict_get d ''partOfSpeech'');
                 definition_text = compact_text L (dict_get d ''definition'');
                 line_parts = nonempty [pos, definition_text]
             in if line_parts \<noteq> []
                then [''<div class=\"def-line\">'' @ html_escape (join '' '' line_parts) @ ''</div>'']
                else [])
          @ (case dict_get d ''examples'' of
               JList examples \<Rightarrow>
                 (if examples \<noteq> []
                  then [''<ul class=\"examples\">'']
                     @ concat (map (example_blocks L) examples)
                     @ [''</ul>'']
                  else [])
             | _ \<Rightarrow> [])
          @ [''</li>'']
      | _ \<Rightarrow>
          (let line_text = compact_text L item
           in if line_text = [] then [] else [''<li>'' @ html_escape line_text @ ''</li>'']))"

definition definitions_blocks :: "pylib \<Rightarrow> (string \<times> json) list \<Rightarrow> string list" where
  "definitions_blocks L payload =
     (case dict_get payload ''definitions'' of
        JList definitions \<Rightarrow>
          (if definitions \<noteq> []
           then [''<section class=\"section\">'', ''<ol>'']
              @ concat (map (definition_item_blocks L) definitions)
              @ [''</ol>'', ''</section>'']
           else [])
      | _ \<Rightarrow> [])"

definition titled_section_blocks :: "pylib \<Rightarrow> string \<Rightarrow> json \<Rightarrow> string list" where
  "titled_section_blocks L title_zh v =
     (let section_html = render_string_list_section L title_zh v
      in if section_html \<noteq> [] then [section_html] else [])"

definition render_entry :: "pylib \<Rightarrow> string \<Rightarrow> (string \<times> json) list \<Rightarrow> string" where
  "render_entry L word payload =
     concat
       ([''<div class=\"entry\">'', ''<h1 class=\"word\">'' @ html_escape word @ ''</h1>'']
        @ phonetic_summary_blocks L payload
        @ definitions_blocks L payload
        @ titled_section_blocks L SYNONYMS_TITLE (dict_get payload ''synonyms'')
        @ titled_section_blocks L EXTRA_EXPLANATION_TITLE (dict_get payload ''extra_explanation'')
        @ [''</div>''])"

section \<open>Reading and validating lines (both scripts)\<close>

text \<open>
  \<^verbatim>\<open>raise SystemExit(message)\<close> ends the run with the message; it is the only error
  either script raises itself. The \<^verbatim>\<open>try\<close> around \<^verbatim>\<open>json.loads\<close> catches
  \<^verbatim>\<open>json.JSONDecodeError\<close> only: any other exception of \<^verbatim>\<open>json.loads\<close> leaves the
  script uncaught and ends the run with its own text.
\<close>

datatype error = SystemExit string | Uncaught string

text \<open>
  A shard is a path and the lines Python's file iteration yields for it. A data directory
  is given by the regular files in it. \<open>iter_ndjson_files\<close> keeps the names matching
  \<^verbatim>\<open>*.ndjson\<close> and sorts the paths; paths of one directory sort as their strings do.
\<close>

type_synonym shard = "string \<times> string list"

definition is_ndjson :: "string \<Rightarrow> bool" where
  "is_ndjson path = (length ''.ndjson'' \<le> length path
     \<and> drop (length path - length ''.ndjson'') path = ''.ndjson'')"

definition iter_ndjson_files :: "shard list \<Rightarrow> shard list" where
  "iter_ndjson_files data_dir = sort_key fst (filter (\<lambda>(path, lines). is_ndjson path) data_dir)"

text \<open>
  The body of the line loop up to the validated record: lines 206--225 of
  \<^verbatim>\<open>build_mdx_from_data.py\<close>, and the same text at lines 88--108 of
  \<^verbatim>\<open>build_sqlite_from_data.py\<close>. \<open>Inr None\<close> is the \<^verbatim>\<open>continue\<close> of a blank line;
  \<open>Inr (Some (word, payload, line))\<close> carries the word, the parsed object and the stripped
  line.
\<close>

definition read_record ::
  "pylib \<Rightarrow> string \<Rightarrow> nat \<Rightarrow> string
     \<Rightarrow> error + (string \<times> (string \<times> json) list \<times> string) option" where
  "read_record L file_path line_no raw_line =
     (let line = str_strip L raw_line
      in if line = [] then Inr None
         else
           (case json_loads L line of
              Inl (JSONDecodeError msg) \<Rightarrow>
                Inl (SystemExit (''ERROR: invalid JSON at '' @ file_path @ '':''
                       @ str_nat line_no @ '': '' @ msg))
            | Inl (Raised exc) \<Rightarrow> Inl (Uncaught exc)
            | Inr (JDict payload) \<Rightarrow>
                (case dict_get payload ''word'' of
                   JStr word \<Rightarrow>
                     (if word = []
                      then Inl (SystemExit (''ERROR: missing/invalid 'word' at '' @ file_path
                             @ '':'' @ str_nat line_no))
                      else Inr (Some (word, payload, line)))
                 | _ \<Rightarrow>
                     Inl (SystemExit (''ERROR: missing/invalid 'word' at '' @ file_path
                            @ '':'' @ str_nat line_no)))
            | Inr _ \<Rightarrow>
                Inl (SystemExit (''ERROR: expected JSON object at '' @ file_path @ '':''
                       @ str_nat line_no))))"

section \<open>The document pipeline (build\_mdx\_from\_data.py, lines 199--279)\<close>

text \<open>
  \<^verbatim>\<open>entries\<close> is a Python dict: an assignment to a key already present keeps the
  key's position, a new key goes last. \<open>AList.update\<close> does the same on an association
  list. The loops of \<open>load_entries\<close> thread \<open>(entries, overwritten)\<close>; \<^verbatim>\<open>enumerate\<close>
  starts at line 1 in every file.
\<close>

type_synonym entries = "(string \<times> string) list"

fun load_lines ::
  "pylib \<Rightarrow> string \<Rightarrow> nat \<Rightarrow> string list \<Rightarrow> entries \<times> nat \<Rightarrow> error + entries \<times> nat" where
  "load_lines L file_path line_no [] st = Inr st"
| "load_lines L file_path line_no (raw_line # rest) (entries, overwritten) =
     (case read_record L file_path line_no raw_line of
        Inl e \<Rightarrow> Inl e
      | Inr None \<Rightarrow> load_lines L file_path (Suc line_no) rest (entries, overwritten)
      | Inr (Some (word, payload, line)) \<Rightarrow>
          load_lines L file_path (Suc line_no) rest
            (AList.update word (render_entry L word payload) entries,
             if word \<in> set (map fst entries) then Suc overwritten else overwritten))"

fun load_files :: "pylib \<Rightarrow> shard list \<Rightarrow> entries \<times> nat \<Rightarrow> error + entries \<times> nat" where
  "load_files L [] st = Inr st"
| "load_files L ((file_path, lines) # files) st =
     (case load_lines L file_path 1 lines st of
        Inl e \<Rightarrow> Inl e
      | Inr st' \<Rightarrow> load_files L files st')"

definition load_entries :: "pylib \<Rightarrow> shard list \<Rightarrow> error + entries \<times> nat" where
  "load_entries L data_dir = load_files L (iter_ndjson_files data_dir) ([], 0)"

text \<open>
  Line 260: \<^verbatim>\<open>sorted(entries.items(), key=lambda kv: (kv[0].lower(), kv[0]))\<close>. Python's
  sort is stable and compares the key tuples lexicographically, as \<open>sort_key\<close> does with
  the lexicographic orders on pairs and strings.
\<close>

definition sort_key_of :: "pylib \<Rightarrow> string \<times> string \<Rightarrow> string \<times> string" where
  "sort_key_of L kv = (str_lower L (fst kv), fst kv)"

definition sorted_items :: "pylib \<Rightarrow> entries \<Rightarrow> entries" where
  "sorted_items L entries = sort_key (sort_key_of L) entries"

text \<open>
  \<^verbatim>\<open>MDictWriter\<close> is not part of this repository. It lays out the keys of the file in
  an order of its own: \<^verbatim>\<open>_build_offset_table\<close> of \<^verbatim>\<open>mdict_utils/base/writemdict.py\<close>
  sorts the items of the dict it is given by key, the keys compared as strings. The order
  of the dict it is given is lost.
\<close>

definition writer_key_order :: "entries \<Rightarrow> entries" where
  "writer_key_order items = sort_key fst items"

text \<open>
  \<open>main\<close> of the document pipeline, after argument parsing. The world it acts on: whether
  the \<^verbatim>\<open>mdict_utils\<close> import succeeds, the data directories that exist, and the files at
  the output paths. A written file is its items in the order the writer lays them out,
  with the title, the description and \<^verbatim>\<open>encrypt_index=False\<close> the writer is given.
\<close>

record mdx_args =
  data_dir :: string
  out_mdx :: string
  title :: string
  description :: string

record mdx_file =
  mdx_items :: entries
  mdx_title :: string
  mdx_description :: string
  encrypt_index :: bool

record mdx_world =
  mdict_installed :: bool
  directories :: "string \<Rightarrow> shard list option"
  mdx_files :: "string \<Rightarrow> mdx_file option"

record mdx_summary =
  ndjson_file_count :: nat
  entry_count :: nat
  overwritten_duplicates :: nat

definition main_mdx ::
  "pylib \<Rightarrow> mdx_args \<Rightarrow> mdx_world \<Rightarrow> (error + mdx_summary) \<times> mdx_world" where
  "main_mdx L args w =
     (if \<not> mdict_installed w
      then (Inl (SystemExit (''ERROR: missing dependency 'mdict-utils'. ''
              @ ''Run with: uv run --with mdict-utils python scripts/build_mdx_from_data.py'')), w)
      else
        (case directories w (data_dir args) of
           None \<Rightarrow> (Inl (SystemExit (''ERROR: data directory not found: '' @ data_dir args)), w)
         | Some dir \<Rightarrow>
             (let ndjson_files = iter_ndjson_files dir
              in if ndjson_files = []
                 then (Inl (SystemExit (''ERROR: no .ndjson files found in: '' @ data_dir args)), w)
                 else
                   (case load_entries L dir of
                      Inl e \<Rightarrow> (Inl e, w)
                    | Inr (entries, overwritten) \<Rightarrow>
                        (if entries = []
                         then (Inl (SystemExit ''ERROR: no dictionary entries loaded''), w)
                         else
                           (Inr \<lparr>ndjson_file_count = length ndjson_files,
                                 entry_count = length entries,
                                 overwritten_duplicates = overwritten\<rparr>,
                            w\<lparr>mdx_files := (mdx_files w)(out_mdx args \<mapsto>
                                 \<lparr>mdx_items = writer_key_order (sorted_items L entries),
                                  mdx_title = title args,
                                  mdx_description = description args,
                                  encrypt_index = False\<rparr>)\<rparr>))))))"

section \<open>The relational pipeline (build\_sqlite\_from\_data.py, lines 50--155)\<close>

text \<open>
  The database is the rows of its one table \<^verbatim>\<open>words(word, definition)\<close>, unique on
  \<^verbatim>\<open>word\<close> under the binary collation. A connection of Python's \<^verbatim>\<open>sqlite3\<close> module sees
  its own \<open>working\<close> rows; the file holds the \<open>committed\<close> rows. The module opens a
  transaction before an \<^verbatim>\<open>INSERT\<close> and never before a \<^verbatim>\<open>DROP\<close> or \<^verbatim>\<open>CREATE\<close>, which
  SQLite then commits on its own when no transaction is open. Leaving
  \<^verbatim>\<open>with sqlite3.connect(...) as conn\<close> commits, or rolls back when an exception leaves
  the block.
\<close>

type_synonym table = "(string \<times> string) list"

record connection =
  committed :: table
  working :: table
  in_transaction :: bool

definition connect :: connection where
  "connect = \<lparr>committed = [], working = [], in_transaction = False\<rparr>"

definition execute_ddl :: "(table \<Rightarrow> table) \<Rightarrow> connection \<Rightarrow> connection" where
  "execute_ddl stmt conn =
     (if in_transaction conn then conn\<lparr>working := stmt (working conn)\<rparr>
      else conn\<lparr>committed := stmt (working conn), working := stmt (working conn)\<rparr>)"

definition commit :: "connection \<Rightarrow> connection" where
  "commit conn = conn\<lparr>committed := working conn, in_transaction := False\<rparr>"

definition rollback :: "connection \<Rightarrow> connection" where
  "rollback conn = conn\<lparr>working := committed conn, in_transaction := False\<rparr>"

text \<open>
  \<open>create_schema\<close>: \<^verbatim>\<open>DROP TABLE IF EXISTS words\<close>, \<^verbatim>\<open>CREATE TABLE words\<close> and the unique
  index leave the table present and empty.
\<close>

definition create_schema :: "connection \<Rightarrow> connection" where
  "create_schema conn =
     execute_ddl (\<lambda>rows. rows) (execute_ddl (\<lambda>rows. []) (execute_ddl (\<lambda>rows. []) conn))"

text \<open>
  One row of the \<^verbatim>\<open>INSERT ... ON CONFLICT(word) DO UPDATE SET definition=excluded.definition\<close>:
  a new word adds a row, a word already stored has its definition replaced.
  \<^verbatim>\<open>executemany\<close> runs the statement for each row of the batch in order.
\<close>

definition upsert :: "string \<times> string \<Rightarrow> table \<Rightarrow> table" where
  "upsert row rows = AList.update (fst row) (snd row) rows"

definition executemany_upsert :: "connection \<Rightarrow> (string \<times> string) list \<Rightarrow> connection" where
  "executemany_upsert conn batch =
     conn\<lparr>working := fold upsert batch (working conn), in_transaction := True\<rparr>"

text \<open>\<open>flush_batch\<close> clears the caller's list in place: the emptied batch is returned.\<close>

definition flush_batch ::
  "connection \<Rightarrow> (string \<times> string) list \<Rightarrow> connection \<times> (string \<times> string) list" where
  "flush_batch conn batch =
     (if batch = [] then (conn, batch) else (executemany_upsert conn batch, []))"

text \<open>
  The loops of \<open>import_rows\<close> thread the connection, the batch and \<^verbatim>\<open>read_rows\<close>. An
  exception leaves the locals behind; the connection, owned by \<open>main\<close>, survives it.
\<close>

type_synonym import_state = "connection \<times> (string \<times> string) list \<times> nat"

fun import_lines ::
  "pylib \<Rightarrow> int \<Rightarrow> string \<Rightarrow> nat \<Rightarrow> string list \<Rightarrow> import_state
     \<Rightarrow> error \<times> connection + import_state" where
  "import_lines L batch_size file_path line_no [] st = Inr st"
| "import_lines L batch_size file_path line_no (raw_line # rest) (conn, batch, read_rows) =
     (case read_record L file_path line_no raw_line of
        Inl e \<Rightarrow> Inl (e, conn)
      | Inr None \<Rightarrow>
          import_lines L batch_size file_path (Suc line_no) rest (conn, batch, read_rows)
      | Inr (Some (word, payload, line)) \<Rightarrow>
          (let batch' = batch @ [(word, line)];
               (conn', batch'') =
                  (if int (length batch') \<ge> batch_size then flush_batch conn batch'
                   else (conn, batch'))
           in import_lines L batch_size file_path (Suc line_no) rest
                (conn', batch'', Suc read_rows)))"

fun import_files ::
  "pylib \<Rightarrow> int \<Rightarrow> shard list \<Rightarrow> import_state \<Rightarrow> error \<times> connection + import_state" where
  "import_files L batch_size [] st = Inr st"
| "import_files L batch_size ((file_path, lines) # files) st =
     (case import_lines L batch_size file_path 1 lines st of
        Inl e \<Rightarrow> Inl e
      | Inr st' \<Rightarrow> import_files L batch_size files st')"

definition import_rows ::
  "pylib \<Rightarrow> connection \<Rightarrow> shard list \<Rightarrow> int \<Rightarrow> error \<times> connection + (nat \<times> nat) \<times> connection" where
  "import_rows L conn ndjson_files batch_size =
     (case import_files L batch_size ndjson_files (conn, [], 0) of
        Inl e \<Rightarrow> Inl e
      | Inr (conn', batch, read_rows) \<Rightarrow>
          (let (conn'', batch') = flush_batch conn' batch;
               stored_rows = length (working conn'')
           in Inr ((read_rows, stored_rows), conn'')))"

text \<open>
  \<open>main\<close> of the relational pipeline, after argument parsing. A file already at the
  output path is unlinked, so the connection opens a new, empty database. The file at
  the output path holds what the connection has committed.
\<close>

record sqlite_args =
  sql_data_dir :: string
  out_db :: string
  batch_size :: int

record sqlite_world =
  sql_directories :: "string \<Rightarrow> shard list option"
  db_files :: "string \<Rightarrow> table option"

record sqlite_summary =
  sql_ndjson_file_count :: nat
  rows_read :: nat
  rows_in_words :: nat

definition main_sqlite ::
  "pylib \<Rightarrow> sqlite_args \<Rightarrow> sqlite_world \<Rightarrow> (error + sqlite_summary) \<times> sqlite_world" where
  "main_sqlite L args w =
     (if batch_size args < 1
      then (Inl (SystemExit ''ERROR: --batch-size must be >= 1''), w)
      else
        (case sql_directories w (sql_data_dir args) of
           None \<Rightarrow>
             (Inl (SystemExit (''ERROR: data directory not found: '' @ sql_data_dir args)), w)
         | Some dir \<Rightarrow>
             (let ndjson_files = iter_ndjson_files dir
              in if ndjson_files = []
                 then (Inl (SystemExit (''ERROR: no .ndjson files found in: ''
                         @ sql_data_dir args)), w)
                 else
                   (let conn = create_schema connect
                    in case import_rows L conn ndjson_files (batch_size args) of
                         Inl (e, conn') \<Rightarrow>
                           (Inl e,
                            w\<lparr>db_files := (db_files w)(out_db args \<mapsto>
                                 committed (rollback conn'))\<rparr>)
                       | Inr ((read_rows, stored_rows), conn') \<Rightarrow>
                           (Inr \<lparr>sql_ndjson_file_count = length ndjson_files,
                                 rows_read = read_rows,
                                 rows_in_words = stored_rows\<rparr>,
                            w\<lparr>db_files := (db_files w)(out_db args \<mapsto>
                                 committed (commit (commit conn')))\<rparr>)))))"

section \<open>An ASCII runtime for evaluating examples\<close>

text \<open>
  On ASCII text \<^verbatim>\<open>str.strip()\<close> removes the characters 9--13, 28--31 and 32 from both
  ends and \<^verbatim>\<open>str.lower()\<close> maps \<^verbatim>\<open>A\<close>--\<^verbatim>\<open>Z\<close> to \<^verbatim>\<open>a\<close>--\<^verbatim>\<open>z\<close>. \<open>sample_loads\<close> is
  \<^verbatim>\<open>json.loads\<close> on the lines the examples below use, and fails on every other line.
  No example takes \<^verbatim>\<open>str()\<close> of a list or dict; \<open>ascii_lib\<close> gives a fixed text for it.
\<close>

definition ascii_space :: "char \<Rightarrow> bool" where
  "ascii_space c = (of_char c \<in> set [9, 10, 11, 12, 13, 28, 29, 30, 31, 32 :: nat])"

definition ascii_strip :: "string \<Rightarrow> string" where
  "ascii_strip s = rev (dropWhile ascii_space (rev (dropWhile ascii_space s)))"

definition ascii_lower :: "string \<Rightarrow> string" where
  "ascii_lower s =
     map (\<lambda>c. if 65 \<le> (of_char c :: nat) \<and> (of_char c :: nat) \<le> 90
               then char_of (of_char c + 32 :: nat) else c) s"

definition sample_loads :: "string \<Rightarrow> loads_error + json" where
  "sample_loads line =
     (if line = ''{\"word\":\"cat\",\"x\":1}''
        then Inr (JDict [(''word'', JStr ''cat''), (''x'', JInt 1)])
      else if line = ''{\"word\":\"cat\",\"x\":2}''
        then Inr (JDict [(''word'', JStr ''cat''), (''x'', JInt 2)])
      else if line = ''{\"word\":\"Dog\"}''
        then Inr (JDict [(''word'', JStr ''Dog'')])
      else if line = ''{\"word\":\"\"}''
        then Inr (JDict [(''word'', JStr [])])
      else if line = ''[1]''
        then Inr (JList [JInt 1])
      else if line = ''{\"word\":\"cherry\"}''
        then Inr (JDict [(''word'', JStr ''cherry'')])
      else if line = ''{\"word\":\"apple\"}''
        then Inr (JDict [(''word'', JStr ''apple'')])
      else if line = ''{\"word\":\"Banana\"}''
        then Inr (JDict [(''word'', JStr ''Banana'')])
      else if line = ''{\"word\":\"Apple\"}''
        then Inr (JDict [(''word'', JStr ''Apple'')])
      else Inl (JSONDecodeError ''Expecting value''))"

definition ascii_lib :: pylib where
  "ascii_lib =
     \<lparr>str_strip = ascii_strip, str_lower = ascii_lower,
      str_of_container = (\<lambda>v. ''[...]''), json_loads = sample_loads\<rparr>"

section \<open>Vocabulary of the properties\<close>

text \<open>
  A line is malformed when \<open>read_record\<close> raises on it; the file path and line number
  only enter the message. \<open>valid_record\<close> is the record a line contributes: none for a
  blank or malformed line. \<open>input_records\<close> lists the records of the shards in
  file-then-line order.
\<close>

definition malformed :: "pylib \<Rightarrow> string \<Rightarrow> bool" where
  "malformed L raw_line =
     (case read_record L [] 0 raw_line of Inl e \<Rightarrow> True | Inr r \<Rightarrow> False)"

definition valid_record ::
  "pylib \<Rightarrow> string \<Rightarrow> (string \<times> (string \<times> json) list \<times> string) list" where
  "valid_record L raw_line =
     (case read_record L [] 0 raw_line of Inr (Some r) \<Rightarrow> [r] | _ \<Rightarrow> [])"

definition lines_valid :: "pylib \<Rightarrow> string list \<Rightarrow> bool" where
  "lines_valid L lines = list_all (\<lambda>raw_line. \<not> malformed L raw_line) lines"

definition all_valid :: "pylib \<Rightarrow> shard list \<Rightarrow> bool" where
  "all_valid L files = list_all (\<lambda>file. lines_valid L (snd file)) files"

definition input_records ::
  "pylib \<Rightarrow> shard list \<Rightarrow> (string \<times> (string \<times> json) list \<times> string) list" where
  "input_records L files = concat (map (valid_record L) (concat (map snd files)))"

text \<open>The words of the input, one per valid record.\<close>

definition input_words :: "pylib \<Rightarrow> shard list \<Rightarrow> string list" where
  "input_words L files = map fst (input_records L files)"

text \<open>What one record does to the accumulator of the document pipeline (lines 227--229).\<close>

definition accumulate ::
  "pylib \<Rightarrow> string \<times> (string \<times> json) list \<times> string \<Rightarrow> entries \<times> nat \<Rightarrow> entries \<times> nat" where
  "accumulate L r st =
     (case (r, st) of
        ((word, payload, line), (entries, overwritten)) \<Rightarrow>
          (AList.update word (render_entry L word payload) entries,
           if word \<in> set (map fst entries) then Suc overwritten else overwritten))"

text \<open>The row a record stands for in each pipeline.\<close>

definition entry_row ::
  "pylib \<Rightarrow> string \<times> (string \<times> json) list \<times> string \<Rightarrow> string \<times> string" where
  "entry_row L r = (case r of (word, payload, line) \<Rightarrow> (word, render_entry L word payload))"

definition line_row :: "string \<times> (string \<times> json) list \<times> string \<Rightarrow> string \<times> string" where
  "line_row r = (case r of (word, payload, line) \<Rightarrow> (word, line))"



section \<open>Lemmas on reading lines\<close>

lemma read_record_cases:
  "(\<exists>e. read_record L fp n raw = Inl e \<and> malformed L raw \<and> valid_record L raw = [])
   \<or> (read_record L fp n raw = Inr None \<and> \<not> malformed L raw \<and> valid_record L raw = [])
   \<or> (\<exists>r. read_record L fp n raw = Inr (Some r) \<and> \<not> malformed L raw \<and> valid_record L raw = [r])"
  by (auto simp: read_record_def malformed_def valid_record_def Let_def
      split: sum.splits json.splits option.splits loads_error.splits)

lemma read_record_good:
  assumes "\<not> malformed L raw"
  obtains "read_record L fp n raw = Inr None" "valid_record L raw = []"
    | r where "read_record L fp n raw = Inr (Some r)" "valid_record L raw = [r]"
  using read_record_cases [of L fp n raw] assms by auto


lemma valid_record_word:
  "(word, payload, line) \<in> set (valid_record L raw) \<Longrightarrow>
     word \<noteq> [] \<and> line = str_strip L raw \<and> json_loads L line = Inr (JDict payload)
     \<and> dict_get payload ''word'' = JStr word"
  by (auto simp: valid_record_def read_record_def Let_def
      split: sum.splits json.splits option.splits if_splits loads_error.splits)

lemma input_records_Nil: "input_records L [] = []"
  by (simp add: input_records_def)

lemma input_records_Cons:
  "input_records L ((fp, lines) # files)
     = concat (map (valid_record L) lines) @ input_records L files"
  by (simp add: input_records_def)

lemma input_words_nonempty: "[] \<notin> set (input_words L files)"
  using valid_record_word [of "[]" _ _ L]
  by (fastforce simp: input_words_def input_records_def)

section \<open>Lemmas on the accumulator and on upserts\<close>

lemma length_update:
  "length (AList.update k v al) = (if k \<in> fst ` set al then length al else Suc (length al))"
  by (induction al) auto

lemma fold_upsert_other:
  "w \<notin> fst ` set rows \<Longrightarrow> map_of (fold upsert rows t) w = map_of t w"
  by (induction rows arbitrary: t) (auto simp: upsert_def update_conv')

lemma fold_upsert_last:
  "w \<notin> fst ` set post \<Longrightarrow> map_of (fold upsert (pre @ (w, v) # post) t) w = Some v"
  by (simp add: fold_upsert_other upsert_def update_conv')

lemma fold_upsert_keys:
  "fst ` set (fold upsert rows t) = fst ` set t \<union> fst ` set rows"
  by (induction rows arbitrary: t) (auto simp: upsert_def dom_update)

lemma fold_upsert_distinct:
  "distinct (map fst t) \<Longrightarrow> distinct (map fst (fold upsert rows t))"
  by (induction rows arbitrary: t) (auto simp: upsert_def distinct_update)

lemma fold_upsert_length:
  assumes "distinct (map fst t)"
  shows "length (fold upsert rows t) = card (fst ` set t \<union> fst ` set rows)"
proof -
  from assms have "distinct (map fst (fold upsert rows t))" by (rule fold_upsert_distinct)
  then have "length (fold upsert rows t) = card (set (map fst (fold upsert rows t)))"
    by (metis distinct_card length_map)
  then show ?thesis by (simp add: fold_upsert_keys)
qed

lemma fold_accumulate_entries:
  "fst (fold (accumulate L) recs st) = fold upsert (map (entry_row L) recs) (fst st)"
  by (induction recs arbitrary: st)
    (auto simp: accumulate_def upsert_def entry_row_def split: prod.splits)

lemma fold_accumulate_count:
  "snd (fold (accumulate L) recs st) + length (fst (fold (accumulate L) recs st))
     = snd st + length (fst st) + length recs"
proof (induction recs arbitrary: st)
  case Nil
  then show ?case by simp
next
  case (Cons r recs)
  obtain word payload line where r: "r = (word, payload, line)" by (cases r)
  obtain entries overwritten where st: "st = (entries, overwritten)" by (cases st)
  show ?case
    using Cons.IH [of "accumulate L r st"]
    by (auto simp: r st accumulate_def length_update)
qed

lemma fst_entry_row: "map fst (map (entry_row L) recs) = map fst recs"
  by (induction recs) (auto simp: entry_row_def)

lemma fst_line_row: "map fst (map line_row recs) = map fst recs"
  by (induction recs) (auto simp: line_row_def)

section \<open>Lemmas on the loops of the document pipeline\<close>

lemma load_lines_append:
  "lines_valid L ls \<Longrightarrow>
   load_lines L fp n (ls @ rest) st
     = load_lines L fp (n + length ls) rest
         (fold (accumulate L) (concat (map (valid_record L) ls)) st)"
proof (induction ls arbitrary: n st)
  case Nil
  then show ?case by simp
next
  case (Cons raw ls)
  obtain entries overwritten where st: "st = (entries, overwritten)" by (cases st)
  from Cons.prems have ok: "\<not> malformed L raw" and tl: "lines_valid L ls"
    by (simp_all add: lines_valid_def)
  from ok show ?case
  proof (cases rule: read_record_good [where fp = fp and n = n])
    case 1
    then show ?thesis using Cons.IH [OF tl] by (simp add: st)
  next
    case (2 r)
    obtain word payload line where r: "r = (word, payload, line)" by (cases r)
    show ?thesis using 2 Cons.IH [OF tl] by (simp add: st r accumulate_def)
  qed
qed

lemma load_lines_valid:
  "lines_valid L ls \<Longrightarrow>
   load_lines L fp n ls st = Inr (fold (accumulate L) (concat (map (valid_record L) ls)) st)"
  using load_lines_append [of L ls fp n "[]" st] by simp

lemma load_lines_abort:
  assumes "lines_valid L ls" and "read_record L fp (n + length ls) raw = Inl e"
  shows "load_lines L fp n (ls @ raw # rest) st = Inl e"
proof -
  obtain entries overwritten
    where "fold (accumulate L) (concat (map (valid_record L) ls)) st = (entries, overwritten)"
    by (cases "fold (accumulate L) (concat (map (valid_record L) ls)) st")
  then show ?thesis
    using load_lines_append [OF assms(1), of fp n "raw # rest" st] assms(2) by simp
qed

lemma load_files_append:
  "all_valid L pre \<Longrightarrow>
   load_files L (pre @ files) st = load_files L files (fold (accumulate L) (input_records L pre) st)"
proof (induction pre arbitrary: st)
  case Nil
  then show ?case by (simp add: input_records_Nil)
next
  case (Cons f pre)
  obtain fp lines where f: "f = (fp, lines)" by (cases f)
  from Cons.prems have a: "lines_valid L lines" and b: "all_valid L pre"
    by (simp_all add: all_valid_def f)
  show ?case
    using load_lines_valid [OF a] Cons.IH [OF b]
    by (simp add: f input_records_Cons)
qed

lemma load_files_valid:
  "all_valid L files \<Longrightarrow>
   load_files L files st = Inr (fold (accumulate L) (input_records L files) st)"
  using load_files_append [of L files "[]" st] by simp

lemma first_malformed_line:
  assumes "\<not> lines_valid L lines"
  obtains ls raw rest where "lines = ls @ raw # rest" "lines_valid L ls" "malformed L raw"
proof -
  from assms have "\<exists>raw \<in> set lines. malformed L raw"
    by (simp add: lines_valid_def list_all_iff)
  then obtain ls raw rest where
    "lines = ls @ raw # rest" "malformed L raw" "\<forall>x \<in> set ls. \<not> malformed L x"
    using split_list_first_prop [of lines "malformed L"] by blast
  then show ?thesis using that by (simp add: lines_valid_def list_all_iff)
qed

lemma first_malformed_file:
  assumes "\<not> all_valid L files"
  obtains pre fp lines post
  where "files = pre @ (fp, lines) # post" "all_valid L pre" "\<not> lines_valid L lines"
proof -
  from assms have "\<exists>f \<in> set files. \<not> lines_valid L (snd f)"
    by (simp add: all_valid_def list_all_iff)
  then obtain pre f post where
    "files = pre @ f # post" "\<not> lines_valid L (snd f)" "\<forall>x \<in> set pre. \<not> \<not> lines_valid L (snd x)"
    using split_list_first_prop [of files "\<lambda>f. \<not> lines_valid L (snd f)"] by blast
  then show ?thesis using that [of pre "fst f" "snd f" post]
    by (simp add: all_valid_def list_all_iff)
qed

lemma malformed_raises:
  "malformed L raw \<Longrightarrow> \<exists>e. read_record L fp n raw = Inl e"
  using read_record_cases [of L fp n raw] by auto

lemma load_files_malformed:
  assumes "\<not> all_valid L files"
  shows "\<exists>e. load_files L files st = Inl e"
proof -
  from assms obtain pre fp lines post
    where files: "files = pre @ (fp, lines) # post" and pre: "all_valid L pre"
      and bad: "\<not> lines_valid L lines"
    by (rule first_malformed_file)
  from bad obtain ls raw rest
    where lines: "lines = ls @ raw # rest" and ls: "lines_valid L ls" and raw: "malformed L raw"
    by (rule first_malformed_line)
  from malformed_raises [OF raw] obtain e where "read_record L fp (1 + length ls) raw = Inl e"
    by blast
  from load_lines_abort [OF ls this]
  show ?thesis by (simp add: files lines load_files_append [OF pre])
qed

lemma load_files_success:
  assumes "load_files L files st = Inr st'"
  shows "all_valid L files \<and> st' = fold (accumulate L) (input_records L files) st"
proof -
  have v: "all_valid L files"
    using assms load_files_malformed [of L files st] by (cases "all_valid L files") auto
  with assms show ?thesis by (simp add: load_files_valid)
qed

section \<open>Lemmas on the loops of the relational pipeline\<close>

lemma flush_batch_effect:
  "flush_batch conn batch = (conn', batch') \<Longrightarrow>
   fold upsert batch' (working conn') = fold upsert batch (working conn)
   \<and> committed conn' = committed conn"
  by (auto simp: flush_batch_def executemany_upsert_def split: if_splits)

text \<open>
  The rows still in the batch are the ones the table has not seen: applying them to the
  working table gives the table that upserting every record read so far would give.
\<close>

definition pending_table :: "import_state \<Rightarrow> table" where
  "pending_table st = (case st of (conn, batch, read_rows) \<Rightarrow> fold upsert batch (working conn))"

lemma import_lines_append:
  "lines_valid L ls \<Longrightarrow>
   \<exists>conn' batch'.
     import_lines L bs fp n (ls @ rest) (conn, batch, rr)
       = import_lines L bs fp (n + length ls) rest
           (conn', batch', rr + length (concat (map (valid_record L) ls)))
     \<and> pending_table (conn', batch', 0)
         = fold upsert (map line_row (concat (map (valid_record L) ls)))
             (pending_table (conn, batch, 0))
     \<and> committed conn' = committed conn"
proof (induction ls arbitrary: n conn batch rr)
  case Nil
  show ?case by (intro exI [of _ conn] exI [of _ batch]) simp
next
  case (Cons raw ls)
  from Cons.prems have ok: "\<not> malformed L raw" and tl: "lines_valid L ls"
    by (simp_all add: lines_valid_def)
  from ok show ?case
  proof (cases rule: read_record_good [where fp = fp and n = n])
    case 1
    then show ?thesis using Cons.IH [OF tl, of "Suc n" conn batch rr] by simp
  next
    case (2 r)
    obtain word payload line where r: "r = (word, payload, line)" by (cases r)
    let ?b = "batch @ [(word, line)]"
    obtain conn1 batch1 where step:
      "(if int (length ?b) \<ge> bs then flush_batch conn ?b else (conn, ?b)) = (conn1, batch1)"
      by (cases "(if int (length ?b) \<ge> bs then flush_batch conn ?b else (conn, ?b))")
    then have eff: "fold upsert batch1 (working conn1) = fold upsert ?b (working conn)"
      and com: "committed conn1 = committed conn"
      using flush_batch_effect [of conn ?b conn1 batch1]
      by (auto split: if_splits)
    from Cons.IH [OF tl, of "Suc n" conn1 batch1 "Suc rr"]
    obtain conn' batch' where
      run: "import_lines L bs fp (Suc n) (ls @ rest) (conn1, batch1, Suc rr)
              = import_lines L bs fp (Suc n + length ls) rest
                  (conn', batch', Suc rr + length (concat (map (valid_record L) ls)))"
      and tab: "pending_table (conn', batch', 0)
         = fold upsert (map line_row (concat (map (valid_record L) ls)))
             (pending_table (conn1, batch1, 0))"
      and com': "committed conn' = committed conn1"
      by blast
    have "import_lines L bs fp n ((raw # ls) @ rest) (conn, batch, rr)
            = import_lines L bs fp (n + length (raw # ls)) rest
                (conn', batch', rr + length (concat (map (valid_record L) (raw # ls))))"
      using 2 step run by (simp add: r Let_def)
    moreover have "pending_table (conn', batch', 0)
         = fold upsert (map line_row (concat (map (valid_record L) (raw # ls))))
             (pending_table (conn, batch, 0))"
      using tab eff 2 by (simp add: r line_row_def pending_table_def)
    ultimately show ?thesis using com com' by metis
  qed
qed

lemma import_lines_valid:
  assumes "lines_valid L ls"
  shows "\<exists>conn' batch'.
     import_lines L bs fp n ls (conn, batch, rr)
       = Inr (conn', batch', rr + length (concat (map (valid_record L) ls)))
     \<and> pending_table (conn', batch', 0)
         = fold upsert (map line_row (concat (map (valid_record L) ls)))
             (pending_table (conn, batch, 0))
     \<and> committed conn' = committed conn"
  using import_lines_append [OF assms, of bs fp n "[]" conn batch rr] by simp

lemma import_lines_abort:
  assumes "lines_valid L ls" and "read_record L fp (n + length ls) raw = Inl e"
  shows "\<exists>conn'. import_lines L bs fp n (ls @ raw # rest) (conn, batch, rr) = Inl (e, conn')
           \<and> committed conn' = committed conn"
  using import_lines_append [OF assms(1), of bs fp n "raw # rest" conn batch rr] assms(2)
  by auto

lemma import_files_append:
  "all_valid L pre \<Longrightarrow>
   \<exists>conn' batch'.
     import_files L bs (pre @ files) (conn, batch, rr)
       = import_files L bs files (conn', batch', rr + length (input_records L pre))
     \<and> pending_table (conn', batch', 0)
         = fold upsert (map line_row (input_records L pre)) (pending_table (conn, batch, 0))
     \<and> committed conn' = committed conn"
proof (induction pre arbitrary: conn batch rr)
  case Nil
  show ?case by (intro exI [of _ conn] exI [of _ batch]) (simp add: input_records_Nil)
next
  case (Cons f pre)
  obtain fp lines where f: "f = (fp, lines)" by (cases f)
  from Cons.prems have a: "lines_valid L lines" and b: "all_valid L pre"
    by (simp_all add: all_valid_def f)
  from import_lines_valid [OF a, of bs fp 1 conn batch rr]
  obtain conn1 batch1 where
    one: "import_lines L bs fp 1 lines (conn, batch, rr)
       = Inr (conn1, batch1, rr + length (concat (map (valid_record L) lines)))"
    and tab1: "pending_table (conn1, batch1, 0)
         = fold upsert (map line_row (concat (map (valid_record L) lines)))
             (pending_table (conn, batch, 0))"
    and com1: "committed conn1 = committed conn"
    by blast
  from Cons.IH [OF b, of conn1 batch1 "rr + length (concat (map (valid_record L) lines))"]
  obtain conn' batch' where
    run: "import_files L bs (pre @ files)
            (conn1, batch1, rr + length (concat (map (valid_record L) lines)))
       = import_files L bs files
           (conn', batch', rr + length (concat (map (valid_record L) lines))
              + length (input_records L pre))"
    and tab: "pending_table (conn', batch', 0)
         = fold upsert (map line_row (input_records L pre)) (pending_table (conn1, batch1, 0))"
    and com: "committed conn' = committed conn1"
    by blast
  have "import_files L bs ((f # pre) @ files) (conn, batch, rr)
       = import_files L bs files (conn', batch', rr + length (input_records L (f # pre)))"
    using one run by (simp add: f input_records_Cons add.assoc)
  moreover have "pending_table (conn', batch', 0)
         = fold upsert (map line_row (input_records L (f # pre))) (pending_table (conn, batch, 0))"
    using tab tab1 by (simp add: f input_records_Cons)
  ultimately show ?case using com com1 by metis
qed

lemma import_files_valid:
  assumes "all_valid L files"
  shows "\<exists>conn' batch'.
     import_files L bs files (conn, batch, rr)
       = Inr (conn', batch', rr + length (input_records L files))
     \<and> pending_table (conn', batch', 0)
         = fold upsert (map line_row (input_records L files)) (pending_table (conn, batch, 0))
     \<and> committed conn' = committed conn"
  using import_files_append [OF assms, of bs "[]" conn batch rr] by simp

lemma import_files_abort:
  assumes "all_valid L pre" and "lines_valid L ls"
    and "read_record L fp (Suc (length ls)) raw = Inl e"
  shows "\<exists>conn'. import_files L bs (pre @ (fp, ls @ raw # rest) # post) (conn, batch, rr)
             = Inl (e, conn')
           \<and> committed conn' = committed conn"
proof -
  from import_files_append [OF assms(1), of bs "(fp, ls @ raw # rest) # post" conn batch rr]
  obtain conn1 batch1 where
    run: "import_files L bs (pre @ (fp, ls @ raw # rest) # post) (conn, batch, rr)
       = import_files L bs ((fp, ls @ raw # rest) # post)
           (conn1, batch1, rr + length (input_records L pre))"
    and com1: "committed conn1 = committed conn"
    by blast
  from assms(3) have "read_record L fp (1 + length ls) raw = Inl e" by simp
  from import_lines_abort [OF assms(2) this, of bs rest conn1 batch1
      "rr + length (input_records L pre)"]
  obtain conn' where
    "import_lines L bs fp 1 (ls @ raw # rest) (conn1, batch1, rr + length (input_records L pre))
       = Inl (e, conn')" and "committed conn' = committed conn1"
    by blast
  then show ?thesis using run com1 by simp
qed

lemma import_rows_valid:
  assumes "all_valid L files"
  shows "\<exists>conn'.
     import_rows L conn files bs
       = Inr ((length (input_records L files), length (working conn')), conn')
     \<and> working conn' = fold upsert (map line_row (input_records L files)) (working conn)
     \<and> committed conn' = committed conn"
proof -
  from import_files_valid [OF assms, of bs conn "[]" 0]
  obtain conn1 batch1 where
    run: "import_files L bs files (conn, [], 0) = Inr (conn1, batch1, length (input_records L files))"
    and tab: "pending_table (conn1, batch1, 0)
         = fold upsert (map line_row (input_records L files)) (working conn)"
    and com: "committed conn1 = committed conn"
    by (auto simp: pending_table_def)
  obtain conn2 batch2 where fl: "flush_batch conn1 batch1 = (conn2, batch2)"
    by (cases "flush_batch conn1 batch1")
  then have b2: "batch2 = []" by (auto simp: flush_batch_def split: if_splits)
  from flush_batch_effect [OF fl] b2 tab com
  have "working conn2 = fold upsert (map line_row (input_records L files)) (working conn)"
    and "committed conn2 = committed conn"
    by (simp_all add: pending_table_def)
  moreover have "import_rows L conn files bs
       = Inr ((length (input_records L files), length (working conn2)), conn2)"
    using run fl by (simp add: import_rows_def)
  ultimately show ?thesis by blast
qed

lemma import_rows_malformed:
  assumes "\<not> all_valid L files"
  shows "\<exists>e conn'. import_rows L conn files bs = Inl (e, conn')
           \<and> committed conn' = committed conn"
proof -
  from assms obtain pre fp lines post
    where files: "files = pre @ (fp, lines) # post" and pre: "all_valid L pre"
      and bad: "\<not> lines_valid L lines"
    by (rule first_malformed_file)
  from bad obtain ls raw rest
    where lines: "lines = ls @ raw # rest" and ls: "lines_valid L ls" and raw: "malformed L raw"
    by (rule first_malformed_line)
  from malformed_raises [OF raw] obtain e where "read_record L fp (Suc (length ls)) raw = Inl e"
    by blast
  from import_files_abort [OF pre ls this, of bs rest post conn "[]" 0]
  show ?thesis by (auto simp: files lines import_rows_def)
qed

lemma import_rows_success:
  assumes "import_rows L conn files bs = Inr ((read_rows, stored_rows), conn')"
  shows "all_valid L files
         \<and> read_rows = length (input_records L files)
         \<and> stored_rows = length (working conn')
         \<and> working conn' = fold upsert (map line_row (input_records L files)) (working conn)
         \<and> committed conn' = committed conn"
proof -
  have v: "all_valid L files"
    using assms import_rows_malformed [of L files conn bs] by (cases "all_valid L files") auto
  from import_rows_valid [OF v, of conn bs] assms v show ?thesis by auto
qed

section \<open>Lemmas on the two main functions\<close>

lemma load_entries_success:
  assumes "load_entries L dir = Inr (entries, overwritten)"
  shows "all_valid L (iter_ndjson_files dir)"
    and "entries = fold upsert (map (entry_row L) (input_records L (iter_ndjson_files dir))) []"
    and "overwritten + length entries = length (input_records L (iter_ndjson_files dir))"
proof -
  from assms have run: "load_files L (iter_ndjson_files dir) ([], 0) = Inr (entries, overwritten)"
    by (simp add: load_entries_def)
  from load_files_success [OF run]
  have v: "all_valid L (iter_ndjson_files dir)"
    and st: "(entries, overwritten)
       = fold (accumulate L) (input_records L (iter_ndjson_files dir)) ([], 0)"
    by simp_all
  show "all_valid L (iter_ndjson_files dir)" by (rule v)
  show "entries = fold upsert (map (entry_row L) (input_records L (iter_ndjson_files dir))) []"
    using fold_accumulate_entries [of L "input_records L (iter_ndjson_files dir)" "([], 0)"]
    by (simp add: st [symmetric])
  show "overwritten + length entries = length (input_records L (iter_ndjson_files dir))"
    using fold_accumulate_count [of L "input_records L (iter_ndjson_files dir)" "([], 0)"]
    by (simp add: st [symmetric])
qed

lemma load_entries_valid:
  assumes "all_valid L (iter_ndjson_files dir)"
  shows "\<exists>entries overwritten. load_entries L dir = Inr (entries, overwritten)"
  using load_files_valid [OF assms, of "([], 0)"]
  by (cases "fold (accumulate L) (input_records L (iter_ndjson_files dir)) ([], 0)")
    (simp add: load_entries_def)

lemma load_entries_malformed:
  assumes "\<not> all_valid L (iter_ndjson_files dir)"
  shows "\<exists>e. load_entries L dir = Inl e"
  using load_files_malformed [OF assms] by (simp add: load_entries_def)

lemma create_schema_connect:
  "create_schema connect = \<lparr>committed = [], working = [], in_transaction = False\<rparr>"
  by (simp add: create_schema_def connect_def execute_ddl_def)

lemma main_mdx_error: "main_mdx L args w = (Inl e, w') \<Longrightarrow> w' = w"
  by (auto simp: main_mdx_def Let_def split: if_splits option.splits sum.splits prod.splits)

lemma main_mdx_success:
  assumes "main_mdx L args w = (Inr summary, w')"
  shows "\<exists>dir entries overwritten.
           directories w (data_dir args) = Some dir
         \<and> load_entries L dir = Inr (entries, overwritten)
         \<and> entries \<noteq> []
         \<and> entry_count summary = length entries
         \<and> overwritten_duplicates summary = overwritten
         \<and> mdx_files w' (out_mdx args)
             = Some \<lparr>mdx_items = writer_key_order (sorted_items L entries),
                      mdx_title = title args,
                      mdx_description = description args, encrypt_index = False\<rparr>"
  using assms
  by (auto simp: main_mdx_def Let_def split: if_splits option.splits sum.splits prod.splits)

lemma main_sqlite_success:
  assumes "main_sqlite L args w = (Inr summary, w')"
  shows "\<exists>dir conn'.
           sql_directories w (sql_data_dir args) = Some dir
         \<and> import_rows L (create_schema connect) (iter_ndjson_files dir) (batch_size args)
             = Inr ((rows_read summary, rows_in_words summary), conn')
         \<and> db_files w' (out_db args) = Some (working conn')"
  using assms
  by (auto simp: main_sqlite_def Let_def commit_def
      split: if_splits option.splits sum.splits prod.splits)


lemma fold_upsert_length_empty:
  "length (fold upsert rows []) = card (set (map fst rows))"
  by (simp add: fold_upsert_length)

lemma sorted_items_mset: "mset (sorted_items L entries) = mset entries"
  by (simp add: sorted_items_def)

lemma written_items_mset: "mset (writer_key_order (sorted_items L entries)) = mset entries"
  by (simp add: writer_key_order_def sorted_items_def)

lemma written_items_keys:
  "mset (map fst (writer_key_order (sorted_items L entries))) = mset (map fst entries)"
proof -
  have "mset (map fst (writer_key_order (sorted_items L entries)))
      = image_mset fst (mset (writer_key_order (sorted_items L entries)))"
    by (rule mset_map)
  also have "\<dots> = image_mset fst (mset entries)" by (simp only: written_items_mset)
  also have "\<dots> = mset (map fst entries)" by (rule mset_map [symmetric])
  finally show ?thesis .
qed

lemma sorted_items_keys: "mset (map fst (sorted_items L entries)) = mset (map fst entries)"
proof -
  have "mset (map fst (sorted_items L entries)) = image_mset fst (mset (sorted_items L entries))"
    by (rule mset_map)
  also have "\<dots> = image_mset fst (mset entries)" by (simp only: sorted_items_mset)
  also have "\<dots> = mset (map fst entries)" by (rule mset_map [symmetric])
  finally show ?thesis .
qed

lemma entry_row_keys: "fst ` set (map (entry_row L) recs) = set (map fst recs)"
proof -
  have "set (map fst (map (entry_row L) recs)) = set (map fst recs)"
    by (simp only: fst_entry_row)
  then show ?thesis by (simp only: set_map)
qed

lemma line_row_keys: "fst ` set (map line_row recs) = set (map fst recs)"
proof -
  have "set (map fst (map line_row recs)) = set (map fst recs)"
    by (simp only: fst_line_row)
  then show ?thesis by (simp only: set_map)
qed

lemma fold_upsert_keys_empty: "set (map fst (fold upsert rows [])) = fst ` set rows"
  using fold_upsert_keys [of rows "[]"] by simp

lemma fold_upsert_distinct_empty: "distinct (map fst (fold upsert rows []))"
  by (rule fold_upsert_distinct) simp


lemma load_entries_words:
  assumes "load_entries L dir = Inr (entries, overwritten)"
  shows "distinct (map fst entries)"
    and "set (map fst entries) = set (input_words L (iter_ndjson_files dir))"
    and "length entries = card (set (input_words L (iter_ndjson_files dir)))"
proof -
  note ent = load_entries_success(2) [OF assms]
  show "distinct (map fst entries)"
    unfolding ent by (rule fold_upsert_distinct_empty)
  show "set (map fst entries) = set (input_words L (iter_ndjson_files dir))"
    unfolding ent by (simp only: fold_upsert_keys_empty entry_row_keys input_words_def)
  have "length entries
      = card (set (map fst (map (entry_row L) (input_records L (iter_ndjson_files dir)))))"
    unfolding ent by (rule fold_upsert_length_empty)
  then show "length entries = card (set (input_words L (iter_ndjson_files dir)))"
    by (simp only: fst_entry_row input_words_def)
qed

lemma import_rows_words:
  assumes "import_rows L (create_schema connect) files bs = Inr ((read_rows, stored_rows), conn')"
  shows "distinct (map fst (working conn'))"
    and "set (map fst (working conn')) = set (input_words L files)"
    and "stored_rows = card (set (input_words L files))"
    and "read_rows = length (input_words L files)"
proof -
  from import_rows_success [OF assms]
  have rr: "read_rows = length (input_records L files)"
    and sr: "stored_rows = length (working conn')"
    and tab: "working conn' = fold upsert (map line_row (input_records L files)) []"
    by (simp_all add: create_schema_connect)
  show "distinct (map fst (working conn'))"
    unfolding tab by (rule fold_upsert_distinct_empty)
  show "set (map fst (working conn')) = set (input_words L files)"
    unfolding tab by (simp only: fold_upsert_keys_empty line_row_keys input_words_def)
  have "length (working conn') = card (set (map fst (map line_row (input_records L files))))"
    unfolding tab by (rule fold_upsert_length_empty)
  then show "stored_rows = card (set (input_words L files))"
    by (simp only: sr fst_line_row input_words_def)
  show "read_rows = length (input_words L files)"
    by (simp add: rr input_words_def)
qed

section \<open>A sample data directory\<close>

text \<open>
  Two shards and a file that is no shard, listed out of order. The first shard holds the
  word \<^verbatim>\<open>cat\<close> twice, around a blank line.
\<close>

definition sample_dir :: "shard list" where
  "sample_dir =
     [(''data/b.ndjson'', [''{\"word\":\"Dog\"}'' @ [CHR 0x0A]]),
      (''data/a.ndjson'',
         [''{\"word\":\"cat\",\"x\":1}'' @ [CHR 0x0A], [CHR '' '', CHR 0x0A],
          ''{\"word\":\"cat\",\"x\":2}'' @ [CHR 0x0A]]),
      (''data/notes.txt'', [''not a shard''])]"


lemma sample_files:
  "iter_ndjson_files sample_dir =
     [(''data/a.ndjson'',
         [''{\"word\":\"cat\",\"x\":1}'' @ [CHR 0x0A], [CHR '' '', CHR 0x0A],
          ''{\"word\":\"cat\",\"x\":2}'' @ [CHR 0x0A]]),
      (''data/b.ndjson'', [''{\"word\":\"Dog\"}'' @ [CHR 0x0A]])]"
  by code_simp

lemma sample_valid: "all_valid ascii_lib (iter_ndjson_files sample_dir)"
  by code_simp

lemma sample_records:
  "input_records ascii_lib (iter_ndjson_files sample_dir) =
     [(''cat'', [(''word'', JStr ''cat''), (''x'', JInt 1)], ''{\"word\":\"cat\",\"x\":1}''),
      (''cat'', [(''word'', JStr ''cat''), (''x'', JInt 2)], ''{\"word\":\"cat\",\"x\":2}''),
      (''Dog'', [(''word'', JStr ''Dog'')], ''{\"word\":\"Dog\"}'')]"
  by code_simp

text \<open>
  Sample arguments and worlds for the two main functions: the data directory \<^verbatim>\<open>data\<close>
  holds the given files, no document file exists yet, and a database with one row is
  already at the output path of the relational pipeline.
\<close>

definition sample_mdx_args :: mdx_args where
  "sample_mdx_args =
     \<lparr>data_dir = ''data'', out_mdx = ''out.mdx'',
      title = ''Open English Dictionary'', description = ''sample''\<rparr>"

definition sample_mdx_world :: "shard list \<Rightarrow> mdx_world" where
  "sample_mdx_world dir =
     \<lparr>mdict_installed = True,
      directories = (\<lambda>path. if path = ''data'' then Some dir else None),
      mdx_files = (\<lambda>path. None)\<rparr>"

definition sample_sqlite_args :: sqlite_args where
  "sample_sqlite_args = \<lparr>sql_data_dir = ''data'', out_db = ''db.sqlite'', batch_size = 2\<rparr>"

definition sample_sqlite_world :: "shard list \<Rightarrow> sqlite_world" where
  "sample_sqlite_world dir =
     \<lparr>sql_directories = (\<lambda>path. if path = ''data'' then Some dir else None),
      db_files = (\<lambda>path. if path = ''db.sqlite'' then Some [(''old'', ''row'')] else None)\<rparr>"

definition succeeded :: "'e + 'a \<Rightarrow> bool" where
  "succeeded r = (case r of Inl e \<Rightarrow> False | Inr x \<Rightarrow> True)"

lemma succeededE:
  assumes "succeeded (fst r)"
  obtains x s where "r = (Inr x, s)"
  using assms by (cases r; cases "fst r") (auto simp: succeeded_def)

lemma sample_mdx_run: "succeeded (fst (main_mdx ascii_lib sample_mdx_args (sample_mdx_world sample_dir)))"
  by code_simp

lemma sample_sqlite_run:
  "succeeded (fst (main_sqlite ascii_lib sample_sqlite_args (sample_sqlite_world sample_dir)))"
  by code_simp

lemma main_sqlite_error_import:
  assumes bs: "1 \<le> batch_size args"
    and dir: "sql_directories w (sql_data_dir args) = Some dir"
    and bad: "\<not> all_valid L (iter_ndjson_files dir)"
  shows "\<exists>e. main_sqlite L args w
           = (Inl e, w\<lparr>db_files := (db_files w)(out_db args \<mapsto> [])\<rparr>)"
proof -
  from bad have ne: "iter_ndjson_files dir \<noteq> []" by (auto simp: all_valid_def)
  from import_rows_malformed [OF bad, of "create_schema connect" "batch_size args"]
  obtain e conn' where
    run: "import_rows L (create_schema connect) (iter_ndjson_files dir) (batch_size args)
            = Inl (e, conn')"
    and com: "committed conn' = committed (create_schema connect)"
    by blast
  have "committed (rollback conn') = []"
    by (simp add: rollback_def com create_schema_connect)
  then have "main_sqlite L args w
           = (Inl e, w\<lparr>db_files := (db_files w)(out_db args \<mapsto> [])\<rparr>)"
    using bs dir ne run by (simp add: main_sqlite_def Let_def)
  then show ?thesis by blast
qed

lemma main_mdx_error_load:
  assumes dir: "directories w (data_dir args) = Some dir"
    and bad: "\<not> all_valid L (iter_ndjson_files dir)"
  shows "\<exists>e. main_mdx L args w = (Inl e, w)"
proof -
  from load_entries_malformed [OF bad] obtain e where "load_entries L dir = Inl e" by blast
  with dir show ?thesis by (simp add: main_mdx_def Let_def)
qed

text \<open>A shard whose second line parses to a list, not an object.\<close>

definition broken_dir :: "shard list" where
  "broken_dir =
     [(''data/a.ndjson'',
         [''{\"word\":\"cat\",\"x\":1}'' @ [CHR 0x0A], ''[1]'' @ [CHR 0x0A],
          ''{\"word\":\"Dog\"}'' @ [CHR 0x0A]])]"

lemma broken_invalid: "\<not> all_valid ascii_lib (iter_ndjson_files broken_dir)"
  by code_simp








text \<open>The two lines of the example, without their line ends.\<close>

definition cat_line_1 :: string where
  "cat_line_1 = ''{\"word\":\"cat\",\"x\":1}''"

definition cat_line_2 :: string where
  "cat_line_2 = ''{\"word\":\"cat\",\"x\":2}''"

lemma all_valid_concat: "all_valid L files = lines_valid L (concat (map snd files))"
  by (induction files) (simp_all add: all_valid_def lines_valid_def)

lemma valid_recordI:
  assumes "str_strip L raw = line" and "line \<noteq> []"
    and "json_loads L line = Inr (JDict payload)"
    and "dict_get payload ''word'' = JStr word" and "word \<noteq> []"
  shows "valid_record L raw = [(word, payload, line)]" and "\<not> malformed L raw"
  using assms by (simp_all add: valid_record_def malformed_def read_record_def)

text \<open>The two lines in one shard, ended by newlines, and a batch size of 1000.\<close>

definition cat_dir :: "shard list" where
  "cat_dir = [(''data/cat.ndjson'', [cat_line_1 @ [CHR 0x0A], cat_line_2 @ [CHR 0x0A]])]"

text \<open>
  The order the document pipeline is to emit its words in: by lowercased word, then by
  the word itself.
\<close>

definition word_precedes :: "pylib \<Rightarrow> string \<Rightarrow> string \<Rightarrow> bool" where
  "word_precedes L a b =
     (str_lower L a < str_lower L b \<or> (str_lower L a = str_lower L b \<and> a < b))"

lemma sort_key_less:
  "(sort_key_of L kv < sort_key_of L kv') = word_precedes L (fst kv) (fst kv')"
  by (auto simp: sort_key_of_def word_precedes_def)

lemma sorted_items_sorted: "sorted (map (sort_key_of L) (sorted_items L entries))"
  by (simp add: sorted_items_def)

lemma sort_keys_distinct:
  assumes "distinct (map fst items)"
  shows "distinct (map (sort_key_of L) items)"
proof -
  have eq: "map snd (map (sort_key_of L) items) = map fst items"
    by (induction items) (simp_all add: sort_key_of_def)
  have "distinct (map snd (map (sort_key_of L) items))"
    by (simp only: eq assms)
  then show ?thesis using distinct_map [of snd "map (sort_key_of L) items"] by blast
qed

lemma sorted_items_order:
  assumes d: "distinct (map fst entries)"
    and i: "i < length (sorted_items L entries)"
    and j: "j < length (sorted_items L entries)"
  shows "(i < j)
     = word_precedes L (fst (sorted_items L entries ! i)) (fst (sorted_items L entries ! j))"
proof -
  let ?items = "sorted_items L entries"
  let ?keys = "map (sort_key_of L) ?items"
  have "mset (map fst ?items) = mset (map fst entries)" by (rule sorted_items_keys)
  with d have "distinct (map fst ?items)" using mset_eq_imp_distinct_iff by blast
  then have dk: "distinct ?keys" by (rule sort_keys_distinct)
  have "sorted_wrt (<) ?keys"
    using sorted_items_sorted [of L entries] dk by (simp add: strict_sorted_iff)
  then have up: "\<And>a b. a < b \<Longrightarrow> b < length ?keys \<Longrightarrow> ?keys ! a < ?keys ! b"
    by (simp add: sorted_wrt_iff_nth_less)
  have ki: "?keys ! i = sort_key_of L (?items ! i)" using i by simp
  have kj: "?keys ! j = sort_key_of L (?items ! j)" using j by simp
  have "(i < j) = (?keys ! i < ?keys ! j)"
  proof
    assume "i < j"
    then show "?keys ! i < ?keys ! j" using up [of i j] j by simp
  next
    assume lt: "?keys ! i < ?keys ! j"
    show "i < j"
    proof (rule ccontr)
      assume "\<not> i < j"
      then consider "j = i" | "j < i" by linarith
      then show False
      proof cases
        case 1
        with lt show False by simp
      next
        case 2
        then have "?keys ! j < ?keys ! i" using up [of j i] i by simp
        with lt show False by simp
      qed
    qed
  qed
  then show ?thesis by (simp only: ki kj sort_key_less)
qed

lemma dict_pairs_comprehension:
  "map (\<lambda>(key, child_text). key @ '': '' @ child_text)
     (filter (\<lambda>(key, child_text). child_text \<noteq> [])
       (map (\<lambda>(key, child). (key, f child)) d))
   = [key @ '': '' @ f child. (key, child) \<leftarrow> d, f child \<noteq> []]"
  by (induction d) auto

text \<open>A bilingual object, an object without bilingual keys, and a list with empty items.\<close>

definition sample_bilingual :: json where
  "sample_bilingual = JDict [(''en'', JStr '' hello ''), (''zh'', JList [JInt 1, JNull, JBool True])]"

definition sample_plain_object :: json where
  "sample_plain_object =
     JDict [(''note'', JStr ''rare''), (''skip'', JStr ''  ''), (''count'', JInt (- 12))]"

lemma summary_text_object:
  "dict_get payload ''summary'' = JDict d \<Longrightarrow>
   summary_text L payload = str_strip L (text_from_value L (dict_get d ''zh''))"
  by (simp add: summary_text_def)

lemma summary_text_other:
  assumes "\<forall>s. dict_get payload ''summary'' \<noteq> JStr s"
    and "\<forall>d. dict_get payload ''summary'' \<noteq> JDict d"
  shows "summary_text L payload = []"
  using assms by (cases "dict_get payload ''summary''") (simp_all add: summary_text_def)

text \<open>Two payloads agree on a key when \<^verbatim>\<open>payload.get(key)\<close> gives the same value.\<close>

definition agree_on :: "(string \<times> json) list \<Rightarrow> (string \<times> json) list \<Rightarrow> string list \<Rightarrow> bool" where
  "agree_on p q keys = list_all (\<lambda>key. dict_get p key = dict_get q key) keys"

lemma render_entry_reads:
  assumes "agree_on p q [''phonetic'', ''definitions'', ''synonyms'', ''extra_explanation'']"
    and "summary_text L p = summary_text L q"
  shows "render_entry L word p = render_entry L word q"
  using assms
  by (simp add: render_entry_def agree_on_def phonetic_summary_blocks_def definitions_blocks_def)

text \<open>
  Three payloads with the same phonetic text: a summary object, the same object with
  another \<^verbatim>\<open>en\<close>, and a summary that is a list.
\<close>

definition summary_payload :: "json \<Rightarrow> (string \<times> json) list" where
  "summary_payload summary =
     [(''word'', JStr ''run''), (''phonetic'', JStr ''/run/''), (''summary'', summary)]"

lemma nonempty_members: "[] \<notin> set (nonempty parts)"
  by (simp add: nonempty_def)

lemma section_items_nonempty: "[] \<notin> set (section_items L v)"
  by (cases v) (simp_all add: section_items_def nonempty_members Let_def)

lemma render_section_content:
  "render_string_list_section L title_zh v \<noteq> [] \<Longrightarrow> section_items L v \<noteq> []"
  by (auto simp: render_string_list_section_def Let_def split: if_splits)

lemma titled_section_concat:
  "concat (titled_section_blocks L title_zh v) = render_string_list_section L title_zh v"
  by (simp add: titled_section_blocks_def Let_def)

lemma section_items_absent: "section_items L JNull = []" "section_items L (JList []) = []"
  by (simp_all add: section_items_def nonempty_def)

text \<open>A record whose definitions are a list holding only \<^verbatim>\<open>null\<close>.\<close>

definition null_definitions_payload :: "(string \<times> json) list" where
  "null_definitions_payload = [(''word'', JStr ''x''), (''definitions'', JList [JNull])]"


section \<open>The rendered entry by origin of its fragments\<close>

text \<open>
  The rendered entry with the origin of every fragment: \<open>Markup\<close> is a literal of the
  source, \<open>Escaped\<close> a text the source passes through \<^verbatim>\<open>html.escape\<close> before it embeds it.
  The functions below follow \<open>render_string_list_section\<close> and \<open>render_entry\<close> block by
  block.
\<close>

datatype piece = Markup string | Escaped string

fun emit :: "piece \<Rightarrow> string" where
  "emit (Markup m) = m"
| "emit (Escaped text) = html_escape text"

definition emit_all :: "piece list \<Rightarrow> string" where
  "emit_all pieces = concat (map emit pieces)"

definition template_markup :: "string list" where
  "template_markup =
     [''<div class=\"entry\">'', ''<h1 class=\"word\">'', ''</h1>'',
      ''<div class=\"phonetic-summary\">'', ''</div>'',
      ''<section class=\"section\">'', ''</section>'', ''<ol>'', ''</ol>'',
      ''<li>'', ''</li>'', ''<div class=\"def-line\">'',
      ''<ul class=\"examples\">'', ''<ul>'', ''</ul>'',
      ''<h2 class=\"title\">'', ''</h2>'']"

definition section_pieces :: "pylib \<Rightarrow> string \<Rightarrow> json \<Rightarrow> piece list" where
  "section_pieces L title_zh v =
     (let items = section_items L v
      in if items = [] then []
         else [Markup ''<section class=\"section\">'',
               Markup ''<h2 class=\"title\">'', Escaped title_zh, Markup ''</h2>'',
               Markup ''<ul>'']
            @ concat (map (\<lambda>item. [Markup ''<li>'', Escaped item, Markup ''</li>'']) items)
            @ [Markup ''</ul>'', Markup ''</section>''])"

definition phonetic_summary_pieces :: "pylib \<Rightarrow> (string \<times> json) list \<Rightarrow> piece list" where
  "phonetic_summary_pieces L payload =
     (let line_parts = nonempty [render_phonetic L (dict_get payload ''phonetic''),
                                 summary_text L payload]
      in if line_parts \<noteq> []
         then [Markup ''<div class=\"phonetic-summary\">'', Escaped (join '' '' line_parts),
               Markup ''</div>'']
         else [])"

definition example_pieces :: "pylib \<Rightarrow> json \<Rightarrow> piece list" where
  "example_pieces L ex =
     (let ex_text = compact_text L ex
      in if ex_text \<noteq> [] then [Markup ''<li>'', Escaped ex_text, Markup ''</li>''] else [])"

definition definition_item_pieces :: "pylib \<Rightarrow> json \<Rightarrow> piece list" where
  "definition_item_pieces L item =
     (case item of
        JDict d \<Rightarrow>
          [Markup ''<li>'']
          @ (let line_parts = nonempty [compact_text L (dict_get d ''partOfSpeech''),
                                        compact_text L (dict_get d ''definition'')]
             in if line_parts \<noteq> []
                then [Markup ''<div class=\"def-line\">'', Escaped (join '' '' line_parts),
                      Markup ''</div>'']
                else [])
          @ (case dict_get d ''examples'' of
               JList examples \<Rightarrow>
                 (if examples \<noteq> []
                  then [Markup ''<ul class=\"examples\">'']
                     @ concat (map (example_pieces L) examples)
                     @ [Markup ''</ul>'']
                  else [])
             | _ \<Rightarrow> [])
          @ [Markup ''</li>'']
      | _ \<Rightarrow>
          (let line_text = compact_text L item
           in if line_text = [] then []
              else [Markup ''<li>'', Escaped line_text, Markup ''</li>'']))"

definition definitions_pieces :: "pylib \<Rightarrow> (string \<times> json) list \<Rightarrow> piece list" where
  "definitions_pieces L payload =
     (case dict_get payload ''definitions'' of
        JList definitions \<Rightarrow>
          (if definitions \<noteq> []
           then [Markup ''<section class=\"section\">'', Markup ''<ol>'']
              @ concat (map (definition_item_pieces L) definitions)
              @ [Markup ''</ol>'', Markup ''</section>'']
           else [])
      | _ \<Rightarrow> [])"

definition entry_pieces :: "pylib \<Rightarrow> string \<Rightarrow> (string \<times> json) list \<Rightarrow> piece list" where
  "entry_pieces L word payload =
     [Markup ''<div class=\"entry\">'', Markup ''<h1 class=\"word\">'', Escaped word,
      Markup ''</h1>'']
     @ phonetic_summary_pieces L payload
     @ definitions_pieces L payload
     @ section_pieces L SYNONYMS_TITLE (dict_get payload ''synonyms'')
     @ section_pieces L EXTRA_EXPLANATION_TITLE (dict_get payload ''extra_explanation'')
     @ [Markup ''</div>'']"

text \<open>Every literal among the pieces is one of the template.\<close>

definition templated :: "piece list \<Rightarrow> bool" where
  "templated pieces =
     list_all (\<lambda>p. case p of Markup m \<Rightarrow> m \<in> set template_markup | Escaped text \<Rightarrow> True) pieces"

text \<open>
  What \<^verbatim>\<open>html.escape\<close> does to one character, and the texts in which every ampersand
  starts one of its five entities.
\<close>

definition escape_char :: "char \<Rightarrow> string" where
  "escape_char c =
     (if c = CHR ''&'' then ''&amp;''
      else if c = CHR ''<'' then ''&lt;''
      else if c = CHR ''>'' then ''&gt;''
      else if c = CHR 0x22 then ''&quot;''
      else if c = CHR 0x27 then ''&#x27;''
      else [c])"

definition entity_names :: "string list" where
  "entity_names = [''amp;'', ''lt;'', ''gt;'', ''quot;'', ''#x27;'']"

fun entities_only :: "string \<Rightarrow> bool" where
  "entities_only [] = True"
| "entities_only (c # cs) =
     ((c \<noteq> CHR ''&'' \<or> list_ex (\<lambda>name. take (length name) cs = name) entity_names)
      \<and> entities_only cs)"

section \<open>Lemmas on escaping and on the pieces\<close>

lemma replace_char_Nil: "replace_char c r [] = []"
  by (simp add: replace_char_def)

lemma replace_char_Cons:
  "replace_char c r (x # xs) = (if x = c then r else [x]) @ replace_char c r xs"
  by (simp add: replace_char_def)

lemma replace_char_append:
  "replace_char c r (xs @ ys) = replace_char c r xs @ replace_char c r ys"
  by (simp add: replace_char_def)

lemma html_escape_Nil: "html_escape [] = []"
  by (simp add: html_escape_def replace_char_Nil)

lemma html_escape_Cons: "html_escape (c # s) = escape_char c @ html_escape s"
  by (simp add: html_escape_def escape_char_def replace_char_Cons replace_char_append
      replace_char_Nil)

lemma html_escape_charwise: "html_escape s = concat (map escape_char s)"
  by (induction s) (simp_all add: html_escape_Nil html_escape_Cons)

lemma escape_char_no_angle:
  "CHR ''<'' \<notin> set (escape_char c)" "CHR ''>'' \<notin> set (escape_char c)"
  by (auto simp: escape_char_def)

lemma html_escape_no_angle:
  "CHR ''<'' \<notin> set (html_escape s)" "CHR ''>'' \<notin> set (html_escape s)"
  by (simp_all add: html_escape_charwise escape_char_no_angle)

lemma entities_only_escape_char:
  "entities_only rest \<Longrightarrow> entities_only (escape_char c @ rest)"
  by (simp add: escape_char_def entity_names_def)

lemma html_escape_entities: "entities_only (html_escape s)"
  by (induction s) (simp_all add: html_escape_Nil html_escape_Cons entities_only_escape_char)


lemma emit_all_Nil: "emit_all [] = []"
  by (simp add: emit_all_def)

lemma emit_all_Cons: "emit_all (p # ps) = emit p @ emit_all ps"
  by (simp add: emit_all_def)

lemma emit_all_append: "emit_all (ps @ qs) = emit_all ps @ emit_all qs"
  by (simp add: emit_all_def)

lemmas emit_all_simps = emit_all_Nil emit_all_Cons emit_all_append

lemma templated_Nil: "templated []"
  by (simp add: templated_def)

lemma templated_Markup: "templated (Markup m # ps) = (m \<in> set template_markup \<and> templated ps)"
  by (simp add: templated_def)

lemma templated_Escaped: "templated (Escaped text # ps) = templated ps"
  by (simp add: templated_def)

lemma templated_append: "templated (ps @ qs) = (templated ps \<and> templated qs)"
  by (simp add: templated_def)

lemma templated_concat: "(\<And>x. x \<in> set xs \<Longrightarrow> templated (f x)) \<Longrightarrow> templated (concat (map f xs))"
  by (induction xs) (simp_all add: templated_Nil templated_append)

lemma in_template:
  "''<div class=\"entry\">'' \<in> set template_markup"
  "''<h1 class=\"word\">'' \<in> set template_markup"
  "''</h1>'' \<in> set template_markup"
  "''<div class=\"phonetic-summary\">'' \<in> set template_markup"
  "''</div>'' \<in> set template_markup"
  "''<section class=\"section\">'' \<in> set template_markup"
  "''</section>'' \<in> set template_markup"
  "''<ol>'' \<in> set template_markup"
  "''</ol>'' \<in> set template_markup"
  "''<li>'' \<in> set template_markup"
  "''</li>'' \<in> set template_markup"
  "''<div class=\"def-line\">'' \<in> set template_markup"
  "''<ul class=\"examples\">'' \<in> set template_markup"
  "''<ul>'' \<in> set template_markup"
  "''</ul>'' \<in> set template_markup"
  "''<h2 class=\"title\">'' \<in> set template_markup"
  "''</h2>'' \<in> set template_markup"
  unfolding template_markup_def by simp_all

lemmas templated_simps =
  templated_Nil templated_Markup templated_Escaped templated_append in_template

lemma section_emit:
  "render_string_list_section L title_zh v = emit_all (section_pieces L title_zh v)"
proof -
  have "concat (map (\<lambda>item. ''<li>'' @ html_escape item @ ''</li>'') items)
      = emit_all (concat (map (\<lambda>item. [Markup ''<li>'', Escaped item, Markup ''</li>'']) items))"
    for items
    by (induction items) (simp_all add: emit_all_simps)
  then show ?thesis
    by (simp add: render_string_list_section_def section_pieces_def Let_def emit_all_simps)
qed

lemma section_templated: "templated (section_pieces L title_zh v)"
proof -
  have "templated (concat (map (\<lambda>item. [Markup ''<li>'', Escaped item, Markup ''</li>'']) items))"
    for items
    by (rule templated_concat) (simp add: templated_simps)
  then show ?thesis
    by (simp add: section_pieces_def Let_def templated_simps)
qed

lemma phonetic_summary_emit:
  "concat (phonetic_summary_blocks L payload) = emit_all (phonetic_summary_pieces L payload)"
  by (simp add: phonetic_summary_blocks_def phonetic_summary_pieces_def Let_def emit_all_simps)

lemma phonetic_summary_templated: "templated (phonetic_summary_pieces L payload)"
  by (simp add: phonetic_summary_pieces_def Let_def templated_simps)

lemma example_emit: "concat (example_blocks L ex) = emit_all (example_pieces L ex)"
  by (simp add: example_blocks_def example_pieces_def Let_def emit_all_simps)

lemma examples_emit:
  "concat (concat (map (example_blocks L) examples))
     = emit_all (concat (map (example_pieces L) examples))"
  by (induction examples) (simp_all add: emit_all_simps example_emit)

lemma examples_templated: "templated (concat (map (example_pieces L) examples))"
  by (rule templated_concat) (simp add: example_pieces_def Let_def templated_simps)

lemma definition_item_emit:
  "concat (definition_item_blocks L item) = emit_all (definition_item_pieces L item)"
proof (cases item)
  case (JDict d)
  show ?thesis
    by (cases "dict_get d ''examples''")
      (simp_all add: JDict definition_item_blocks_def definition_item_pieces_def Let_def
        emit_all_simps examples_emit)
qed (simp_all add: definition_item_blocks_def definition_item_pieces_def Let_def emit_all_simps)

lemma definition_item_templated: "templated (definition_item_pieces L item)"
proof (cases item)
  case (JDict d)
  show ?thesis
    by (cases "dict_get d ''examples''")
      (simp_all add: JDict definition_item_pieces_def Let_def templated_simps examples_templated)
qed (simp_all add: definition_item_pieces_def Let_def templated_simps)

lemma definition_items_emit:
  "concat (concat (map (definition_item_blocks L) definitions))
     = emit_all (concat (map (definition_item_pieces L) definitions))"
  by (induction definitions) (simp_all add: emit_all_simps definition_item_emit)

lemma definitions_emit:
  "concat (definitions_blocks L payload) = emit_all (definitions_pieces L payload)"
  by (cases "dict_get payload ''definitions''")
    (simp_all add: definitions_blocks_def definitions_pieces_def emit_all_simps
      definition_items_emit)

lemma definitions_templated: "templated (definitions_pieces L payload)"
proof -
  have "templated (concat (map (definition_item_pieces L) definitions))" for definitions
    by (rule templated_concat) (rule definition_item_templated)
  then show ?thesis
    by (cases "dict_get payload ''definitions''")
      (simp_all add: definitions_pieces_def templated_simps)
qed

text \<open>A record with markup characters in its word, its summary and a synonym.\<close>

definition markup_payload :: "(string \<times> json) list" where
  "markup_payload =
     [(''word'', JStr ''a<b''), (''summary'', JStr ''x & y''),
      (''synonyms'', JList [JStr ''<i>c</i>''])]"









text \<open>
  A shard with the words of the example in the specification, and two readings of a
  run: the words in the order \<open>main\<close> hands them to the writer, and the words of a
  written file in the order they have in it.
\<close>

definition fruit_dir :: "shard list" where
  "fruit_dir =
     [(''data/fruit.ndjson'',
         [''{\"word\":\"cherry\"}'' @ [CHR 0x0A], ''{\"word\":\"apple\"}'' @ [CHR 0x0A],
          ''{\"word\":\"Banana\"}'' @ [CHR 0x0A], ''{\"word\":\"Apple\"}'' @ [CHR 0x0A]])]"

definition handed_to_writer :: "pylib \<Rightarrow> shard list \<Rightarrow> string list" where
  "handed_to_writer L dir =
     (case load_entries L dir of
        Inr (entries, overwritten) \<Rightarrow> map fst (sorted_items L entries)
      | Inl e \<Rightarrow> [])"

definition written_words :: "mdx_world \<Rightarrow> string \<Rightarrow> string list option" where
  "written_words w path = map_option (map fst \<circ> mdx_items) (mdx_files w path)"

section \<open>The properties\<close>

text \<open>
  C1. When every line of the shards is blank or valid, both pipelines succeed, and for a
  word whose last record in file-then-line order is \<open>(word, payload, line)\<close> the
  accumulator of the document pipeline maps the word to the rendering of that record and
  the table of the relational pipeline maps it to that line. The overwrite counter is
  the number of records minus the number of distinct words: one per occurrence of a word
  beyond its first.
\<close>

theorem last_write_wins:
  assumes valid: "all_valid L (iter_ndjson_files dir)"
    and recs: "input_records L (iter_ndjson_files dir) = pre @ (word, payload, line) # post"
    and last: "word \<notin> set (map fst post)"
  shows "\<exists>entries overwritten read_rows stored_rows conn'.
           load_entries L dir = Inr (entries, overwritten)
         \<and> map_of entries word = Some (render_entry L word payload)
         \<and> overwritten + card (set (input_words L (iter_ndjson_files dir)))
             = length (input_words L (iter_ndjson_files dir))
         \<and> import_rows L conn (iter_ndjson_files dir) bs
             = Inr ((read_rows, stored_rows), conn')
         \<and> map_of (working conn') word = Some line"
proof -
  let ?files = "iter_ndjson_files dir"
  from load_entries_valid [OF valid] obtain entries overwritten
    where run: "load_entries L dir = Inr (entries, overwritten)" by blast
  note ent = load_entries_success(2) [OF run] and cnt = load_entries_success(3) [OF run]
  have rows: "map (entry_row L) (input_records L ?files)
      = map (entry_row L) pre @ (word, render_entry L word payload) # map (entry_row L) post"
    by (simp add: recs entry_row_def)
  have notin: "word \<notin> fst ` set (map (entry_row L) post)"
    using last fst_entry_row [of L post] by (metis list.set_map)
  have a: "map_of entries word = Some (render_entry L word payload)"
    unfolding ent rows using notin by (rule fold_upsert_last)
  have "length entries = card (set (map fst (map (entry_row L) (input_records L ?files))))"
    unfolding ent by (rule fold_upsert_length_empty)
  then have len: "length entries = card (set (input_words L ?files))"
    by (simp only: fst_entry_row input_words_def)
  have b: "overwritten + card (set (input_words L ?files)) = length (input_words L ?files)"
    using cnt len by (simp add: input_words_def)
  from import_rows_valid [OF valid, of conn bs] obtain conn'
    where imp: "import_rows L conn ?files bs
       = Inr ((length (input_records L ?files), length (working conn')), conn')"
      and tab: "working conn' = fold upsert (map line_row (input_records L ?files)) (working conn)"
    by blast
  have lrows: "map line_row (input_records L ?files)
      = map line_row pre @ (word, line) # map line_row post"
    by (simp add: recs line_row_def)
  have notin': "word \<notin> fst ` set (map line_row post)"
    using last fst_line_row [of post] by (metis list.set_map)
  have c: "map_of (working conn') word = Some line"
    unfolding tab lrows using notin' by (rule fold_upsert_last)
  from run a b imp c show ?thesis by blast
qed

theorem last_write_wins_witness:
  "\<exists>entries overwritten read_rows stored_rows conn'.
           load_entries ascii_lib sample_dir = Inr (entries, overwritten)
         \<and> map_of entries ''cat''
             = Some (render_entry ascii_lib ''cat'' [(''word'', JStr ''cat''), (''x'', JInt 2)])
         \<and> overwritten + card (set (input_words ascii_lib (iter_ndjson_files sample_dir)))
             = length (input_words ascii_lib (iter_ndjson_files sample_dir))
         \<and> import_rows ascii_lib (create_schema connect) (iter_ndjson_files sample_dir) 2
             = Inr ((read_rows, stored_rows), conn')
         \<and> map_of (working conn') ''cat'' = Some ''{\"word\":\"cat\",\"x\":2}''"
proof -
  have recs: "input_records ascii_lib (iter_ndjson_files sample_dir)
      = [(''cat'', [(''word'', JStr ''cat''), (''x'', JInt 1)], ''{\"word\":\"cat\",\"x\":1}'')]
        @ (''cat'', [(''word'', JStr ''cat''), (''x'', JInt 2)], ''{\"word\":\"cat\",\"x\":2}'')
        # [(''Dog'', [(''word'', JStr ''Dog'')], ''{\"word\":\"Dog\"}'')]"
    by (simp add: sample_records)
  have last: "''cat'' \<notin> set (map fst [(''Dog'', [(''word'', JStr ''Dog'')], ''{\"word\":\"Dog\"}'')])"
    by simp
  from last_write_wins [OF sample_valid recs last, of "create_schema connect" 2]
  show ?thesis .
qed

text \<open>
  C3. After a successful run of either pipeline the stored words are pairwise distinct
  and none is empty; they are exactly the words of the input lines, so the number of
  stored entries (and the count each script prints) is the number of distinct words of
  the input.
\<close>

theorem stored_words_unique:
  "(main_mdx L args w = (Inr summary, w') \<longrightarrow>
      (\<exists>file dir. mdx_files w' (out_mdx args) = Some file
         \<and> directories w (data_dir args) = Some dir
         \<and> distinct (map fst (mdx_items file))
         \<and> [] \<notin> set (map fst (mdx_items file))
         \<and> set (map fst (mdx_items file)) = set (input_words L (iter_ndjson_files dir))
         \<and> length (mdx_items file) = card (set (input_words L (iter_ndjson_files dir)))
         \<and> entry_count summary = card (set (input_words L (iter_ndjson_files dir)))))
   \<and> (main_sqlite L sargs sw = (Inr ssummary, sw') \<longrightarrow>
      (\<exists>rows dir. db_files sw' (out_db sargs) = Some rows
         \<and> sql_directories sw (sql_data_dir sargs) = Some dir
         \<and> distinct (map fst rows)
         \<and> [] \<notin> set (map fst rows)
         \<and> set (map fst rows) = set (input_words L (iter_ndjson_files dir))
         \<and> length rows = card (set (input_words L (iter_ndjson_files dir)))
         \<and> rows_in_words ssummary = card (set (input_words L (iter_ndjson_files dir)))))"
proof (intro conjI impI)
  assume "main_mdx L args w = (Inr summary, w')"
  from main_mdx_success [OF this] obtain dir entries overwritten where
    dir: "directories w (data_dir args) = Some dir"
    and run: "load_entries L dir = Inr (entries, overwritten)"
    and cnt: "entry_count summary = length entries"
    and outf: "mdx_files w' (out_mdx args)
             = Some \<lparr>mdx_items = writer_key_order (sorted_items L entries),
                      mdx_title = title args,
                      mdx_description = description args, encrypt_index = False\<rparr>"
    by blast
  let ?items = "writer_key_order (sorted_items L entries)"
  let ?words = "input_words L (iter_ndjson_files dir)"
  let ?file = "\<lparr>mdx_items = ?items, mdx_title = title args,
                 mdx_description = description args, encrypt_index = False\<rparr>"
  note w = load_entries_words [OF run]
  have keys: "mset (map fst ?items) = mset (map fst entries)" by (rule written_items_keys)
  have d: "distinct (map fst ?items)"
    using w(1) mset_eq_imp_distinct_iff [OF keys] by simp
  have "set (map fst ?items) = set (map fst entries)" by (rule mset_eq_setD [OF keys])
  then have s: "set (map fst ?items) = set ?words" by (simp only: w(2))
  have n: "[] \<notin> set (map fst ?items)"
    unfolding s by (rule input_words_nonempty)
  have "length ?items = length entries"
    by (rule mset_eq_length [OF written_items_mset])
  then have l: "length ?items = card (set ?words)" by (simp only: w(3))
  have c: "entry_count summary = card (set ?words)" by (simp only: cnt w(3))
  have "mdx_files w' (out_mdx args) = Some ?file
         \<and> directories w (data_dir args) = Some dir
         \<and> distinct (map fst (mdx_items ?file))
         \<and> [] \<notin> set (map fst (mdx_items ?file))
         \<and> set (map fst (mdx_items ?file)) = set ?words
         \<and> length (mdx_items ?file) = card (set ?words)
         \<and> entry_count summary = card (set ?words)"
    using outf dir d n s l c by simp
  then show "\<exists>file dir. mdx_files w' (out_mdx args) = Some file
         \<and> directories w (data_dir args) = Some dir
         \<and> distinct (map fst (mdx_items file))
         \<and> [] \<notin> set (map fst (mdx_items file))
         \<and> set (map fst (mdx_items file)) = set (input_words L (iter_ndjson_files dir))
         \<and> length (mdx_items file) = card (set (input_words L (iter_ndjson_files dir)))
         \<and> entry_count summary = card (set (input_words L (iter_ndjson_files dir)))"
    by blast
next
  assume "main_sqlite L sargs sw = (Inr ssummary, sw')"
  from main_sqlite_success [OF this] obtain dir conn' where
    dir: "sql_directories sw (sql_data_dir sargs) = Some dir"
    and run: "import_rows L (create_schema connect) (iter_ndjson_files dir) (batch_size sargs)
             = Inr ((rows_read ssummary, rows_in_words ssummary), conn')"
    and outf: "db_files sw' (out_db sargs) = Some (working conn')"
    by blast
  let ?words = "input_words L (iter_ndjson_files dir)"
  note w = import_rows_words [OF run]
  have n: "[] \<notin> set (map fst (working conn'))"
    unfolding w(2) by (rule input_words_nonempty)
  have "length (working conn') = card (set (map fst (working conn')))"
    using distinct_card [OF w(1)] by simp
  then have l: "length (working conn') = card (set ?words)" by (simp only: w(2))
  have "db_files sw' (out_db sargs) = Some (working conn')
         \<and> sql_directories sw (sql_data_dir sargs) = Some dir
         \<and> distinct (map fst (working conn'))
         \<and> [] \<notin> set (map fst (working conn'))
         \<and> set (map fst (working conn')) = set ?words
         \<and> length (working conn') = card (set ?words)
         \<and> rows_in_words ssummary = card (set ?words)"
    using outf dir w(1) n w(2) l w(3) by simp
  then show "\<exists>rows dir. db_files sw' (out_db sargs) = Some rows
         \<and> sql_directories sw (sql_data_dir sargs) = Some dir
         \<and> distinct (map fst rows)
         \<and> [] \<notin> set (map fst rows)
         \<and> set (map fst rows) = set (input_words L (iter_ndjson_files dir))
         \<and> length rows = card (set (input_words L (iter_ndjson_files dir)))
         \<and> rows_in_words ssummary = card (set (input_words L (iter_ndjson_files dir)))"
    by blast
qed

theorem stored_words_unique_witness:
  "\<exists>summary w' ssummary sw'.
     main_mdx ascii_lib sample_mdx_args (sample_mdx_world sample_dir) = (Inr summary, w')
   \<and> (\<exists>file dir. mdx_files w' (out_mdx sample_mdx_args) = Some file
         \<and> directories (sample_mdx_world sample_dir) (data_dir sample_mdx_args) = Some dir
         \<and> distinct (map fst (mdx_items file))
         \<and> [] \<notin> set (map fst (mdx_items file))
         \<and> set (map fst (mdx_items file)) = set (input_words ascii_lib (iter_ndjson_files dir))
         \<and> length (mdx_items file) = card (set (input_words ascii_lib (iter_ndjson_files dir)))
         \<and> entry_count summary = card (set (input_words ascii_lib (iter_ndjson_files dir))))
   \<and> main_sqlite ascii_lib sample_sqlite_args (sample_sqlite_world sample_dir) = (Inr ssummary, sw')
   \<and> (\<exists>rows dir. db_files sw' (out_db sample_sqlite_args) = Some rows
         \<and> sql_directories (sample_sqlite_world sample_dir) (sql_data_dir sample_sqlite_args) = Some dir
         \<and> distinct (map fst rows)
         \<and> [] \<notin> set (map fst rows)
         \<and> set (map fst rows) = set (input_words ascii_lib (iter_ndjson_files dir))
         \<and> length rows = card (set (input_words ascii_lib (iter_ndjson_files dir)))
         \<and> rows_in_words ssummary = card (set (input_words ascii_lib (iter_ndjson_files dir))))"
proof -
  from sample_mdx_run obtain summary w'
    where a: "main_mdx ascii_lib sample_mdx_args (sample_mdx_world sample_dir) = (Inr summary, w')"
    by (rule succeededE)
  from sample_sqlite_run obtain ssummary sw'
    where b: "main_sqlite ascii_lib sample_sqlite_args (sample_sqlite_world sample_dir) = (Inr ssummary, sw')"
    by (rule succeededE)
  from stored_words_unique [of ascii_lib sample_mdx_args "sample_mdx_world sample_dir" summary w'
      sample_sqlite_args "sample_sqlite_world sample_dir" ssummary sw'] a b
  show ?thesis by blast
qed

text \<open>
  C8. When some line of the shards is malformed, the document pipeline ends with an error
  and leaves every file as it was: nothing is created or modified at its output path.
  The relational pipeline ends with an error and the database at its output path has the
  table with no committed row, whatever file was at that path before the run.
\<close>

theorem abort_leaves_no_output:
  assumes "\<not> all_valid L (iter_ndjson_files dir)"
    and "directories w (data_dir args) = Some dir"
    and "sql_directories sw (sql_data_dir sargs) = Some dir"
    and "1 \<le> batch_size sargs"
  shows "\<exists>e se sw'.
           main_mdx L args w = (Inl e, w)
         \<and> main_sqlite L sargs sw = (Inl se, sw')
         \<and> db_files sw' (out_db sargs) = Some []
         \<and> sw' = sw\<lparr>db_files := (db_files sw)(out_db sargs \<mapsto> [])\<rparr>"
proof -
  from main_mdx_error_load [OF assms(2) assms(1)] obtain e
    where a: "main_mdx L args w = (Inl e, w)" by blast
  from main_sqlite_error_import [OF assms(4) assms(3) assms(1)] obtain se
    where b: "main_sqlite L sargs sw
           = (Inl se, sw\<lparr>db_files := (db_files sw)(out_db sargs \<mapsto> [])\<rparr>)" by blast
  have "db_files (sw\<lparr>db_files := (db_files sw)(out_db sargs \<mapsto> [])\<rparr>) (out_db sargs) = Some []"
    by simp
  with a b show ?thesis by blast
qed

theorem abort_leaves_no_output_witness:
  "\<exists>e se sw'.
     main_mdx ascii_lib sample_mdx_args (sample_mdx_world broken_dir)
       = (Inl e, sample_mdx_world broken_dir)
   \<and> main_sqlite ascii_lib sample_sqlite_args (sample_sqlite_world broken_dir) = (Inl se, sw')
   \<and> db_files sw' (out_db sample_sqlite_args) = Some []
   \<and> sw' = (sample_sqlite_world broken_dir)
         \<lparr>db_files := (db_files (sample_sqlite_world broken_dir))(out_db sample_sqlite_args \<mapsto> [])\<rparr>"
proof -
  have a: "directories (sample_mdx_world broken_dir) (data_dir sample_mdx_args) = Some broken_dir"
    by (simp add: sample_mdx_world_def sample_mdx_args_def)
  have b: "sql_directories (sample_sqlite_world broken_dir) (sql_data_dir sample_sqlite_args)
      = Some broken_dir"
    by (simp add: sample_sqlite_world_def sample_sqlite_args_def)
  have c: "1 \<le> batch_size sample_sqlite_args"
    by (simp add: sample_sqlite_args_def)
  from abort_leaves_no_output [OF broken_invalid a b c] show ?thesis .
qed

text \<open>
  C7. On a data directory whose shards hold exactly the two lines
  \<^verbatim>\<open>{"word":"cat","x":1}\<close> and \<^verbatim>\<open>{"word":"cat","x":2}\<close>, in this order, the relational
  pipeline reports \<^verbatim>\<open>rows_read=2\<close> and \<^verbatim>\<open>rows_in_words=1\<close>, and the one stored row
  maps \<^verbatim>\<open>cat\<close> to the text of the second line, for every batch size from 1 up.
\<close>

theorem cat_example:
  assumes lines: "concat (map snd (iter_ndjson_files dir)) = [raw1, raw2]"
    and s1: "str_strip L raw1 = cat_line_1"
    and s2: "str_strip L raw2 = cat_line_2"
    and j1: "json_loads L cat_line_1 = Inr (JDict [(''word'', JStr ''cat''), (''x'', JInt 1)])"
    and j2: "json_loads L cat_line_2 = Inr (JDict [(''word'', JStr ''cat''), (''x'', JInt 2)])"
    and sdir: "sql_directories w (sql_data_dir args) = Some dir"
    and bs: "1 \<le> batch_size args"
  shows "\<exists>summary w'.
           main_sqlite L args w = (Inr summary, w')
         \<and> rows_read summary = 2
         \<and> rows_in_words summary = 1
         \<and> db_files w' (out_db args) = Some [(''cat'', cat_line_2)]"
proof -
  let ?files = "iter_ndjson_files dir"
  let ?p1 = "[(''word'', JStr ''cat''), (''x'', JInt 1)]"
  let ?p2 = "[(''word'', JStr ''cat''), (''x'', JInt 2)]"
  have ne1: "cat_line_1 \<noteq> []" and ne2: "cat_line_2 \<noteq> []"
    by (simp_all add: cat_line_1_def cat_line_2_def)
  have w1: "dict_get ?p1 ''word'' = JStr ''cat''" and w2: "dict_get ?p2 ''word'' = JStr ''cat''"
    by (simp_all add: dict_get_def)
  have c: "''cat'' \<noteq> []" by simp
  note r1 = valid_recordI [OF s1 ne1 j1 w1 c] and r2 = valid_recordI [OF s2 ne2 j2 w2 c]
  have valid: "all_valid L ?files"
    by (simp add: all_valid_concat lines lines_valid_def r1(2) r2(2))
  have recs: "input_records L ?files = [(''cat'', ?p1, cat_line_1), (''cat'', ?p2, cat_line_2)]"
    by (simp add: input_records_def lines r1(1) r2(1))
  have ne: "?files \<noteq> []" using lines by auto
  from import_rows_valid [OF valid, of "create_schema connect" "batch_size args"]
  obtain conn' where
    run: "import_rows L (create_schema connect) ?files (batch_size args)
       = Inr ((length (input_records L ?files), length (working conn')), conn')"
    and tab: "working conn'
       = fold upsert (map line_row (input_records L ?files)) (working (create_schema connect))"
    by blast
  have t: "working conn' = [(''cat'', cat_line_2)]"
    by (simp add: tab recs line_row_def upsert_def create_schema_connect)
  let ?summary = "\<lparr>sql_ndjson_file_count = length ?files, rows_read = 2, rows_in_words = 1\<rparr>"
  let ?w' = "w\<lparr>db_files := (db_files w)(out_db args \<mapsto> [(''cat'', cat_line_2)])\<rparr>"
  have "main_sqlite L args w = (Inr ?summary, ?w')"
    using bs sdir ne run by (simp add: main_sqlite_def Let_def recs t commit_def)
  moreover have "rows_read ?summary = 2" and "rows_in_words ?summary = 1"
    and "db_files ?w' (out_db args) = Some [(''cat'', cat_line_2)]"
    by simp_all
  ultimately show ?thesis by blast
qed

theorem cat_example_witness:
  "\<exists>summary w'.
     main_sqlite ascii_lib \<lparr>sql_data_dir = ''data'', out_db = ''db.sqlite'', batch_size = 1000\<rparr>
         (sample_sqlite_world cat_dir) = (Inr summary, w')
   \<and> rows_read summary = 2
   \<and> rows_in_words summary = 1
   \<and> db_files w' (out_db \<lparr>sql_data_dir = ''data'', out_db = ''db.sqlite'', batch_size = 1000\<rparr>)
       = Some [(''cat'', cat_line_2)]"
proof -
  let ?args = "\<lparr>sql_data_dir = ''data'', out_db = ''db.sqlite'', batch_size = 1000\<rparr>"
  have lines: "concat (map snd (iter_ndjson_files cat_dir))
      = [cat_line_1 @ [CHR 0x0A], cat_line_2 @ [CHR 0x0A]]"
    by code_simp
  have s1: "str_strip ascii_lib (cat_line_1 @ [CHR 0x0A]) = cat_line_1" by code_simp
  have s2: "str_strip ascii_lib (cat_line_2 @ [CHR 0x0A]) = cat_line_2" by code_simp
  have j1: "json_loads ascii_lib cat_line_1
      = Inr (JDict [(''word'', JStr ''cat''), (''x'', JInt 1)])" by code_simp
  have j2: "json_loads ascii_lib cat_line_2
      = Inr (JDict [(''word'', JStr ''cat''), (''x'', JInt 2)])" by code_simp
  have sdir: "sql_directories (sample_sqlite_world cat_dir) (sql_data_dir ?args) = Some cat_dir"
    by (simp add: sample_sqlite_world_def)
  have bs: "1 \<le> batch_size ?args" by simp
  from cat_example [OF lines s1 s2 j1 j2 sdir bs] show ?thesis .
qed

text \<open>
  C5. \<open>compact_text\<close> on every JSON value: \<^verbatim>\<open>None\<close> gives the empty string; a string
  gives itself stripped; an int, a float and a bool give their \<^verbatim>\<open>str()\<close>; a list gives
  the non-empty texts of its items joined with \<^verbatim>\<open>"; "\<close>; an object whose \<^verbatim>\<open>en\<close> or
  \<^verbatim>\<open>zh\<close> has a non-empty text gives those texts (both, joined with one space, or the one
  that is not empty); every other object gives its \<^verbatim>\<open>key: text\<close> pairs with a non-empty
  text, joined with \<^verbatim>\<open>"; "\<close>. These are all the values \<^verbatim>\<open>json.loads\<close> returns, so the
  last branch of the source (any other value, its \<^verbatim>\<open>str()\<close> stripped) is taken by none.
\<close>

theorem compact_text_cases:
  "compact_text L JNull = []
   \<and> compact_text L (JStr s) = str_strip L s
   \<and> compact_text L (JInt i) = py_str L (JInt i)
   \<and> compact_text L (JFloat f) = py_str L (JFloat f)
   \<and> compact_text L (JBool b) = py_str L (JBool b)
   \<and> compact_text L (JList items)
       = join ''; '' [text. text \<leftarrow> map (compact_text L) items, text \<noteq> []]
   \<and> (compact_text L (dict_get d ''en'') \<noteq> [] \<and> compact_text L (dict_get d ''zh'') \<noteq> [] \<longrightarrow>
        compact_text L (JDict d)
          = compact_text L (dict_get d ''en'') @ '' '' @ compact_text L (dict_get d ''zh''))
   \<and> (compact_text L (dict_get d ''en'') \<noteq> [] \<and> compact_text L (dict_get d ''zh'') = [] \<longrightarrow>
        compact_text L (JDict d) = compact_text L (dict_get d ''en''))
   \<and> (compact_text L (dict_get d ''en'') = [] \<and> compact_text L (dict_get d ''zh'') \<noteq> [] \<longrightarrow>
        compact_text L (JDict d) = compact_text L (dict_get d ''zh''))
   \<and> (compact_text L (dict_get d ''en'') = [] \<and> compact_text L (dict_get d ''zh'') = [] \<longrightarrow>
        compact_text L (JDict d)
          = join ''; '' [key @ '': '' @ compact_text L child.
                         (key, child) \<leftarrow> d, compact_text L child \<noteq> []])"
proof -
  have l: "compact_text L (JList items)
       = join ''; '' [text. text \<leftarrow> map (compact_text L) items, text \<noteq> []]"
  proof -
    have "nonempty (map (compact_text L) items)
        = [text. text \<leftarrow> map (compact_text L) items, text \<noteq> []]"
      unfolding nonempty_def by (induction items) auto
    then show ?thesis by simp
  qed
  have d4: "compact_text L (dict_get d ''en'') = [] \<and> compact_text L (dict_get d ''zh'') = [] \<longrightarrow>
        compact_text L (JDict d)
          = join ''; '' [key @ '': '' @ compact_text L child.
                         (key, child) \<leftarrow> d, compact_text L child \<noteq> []]"
  proof
    assume "compact_text L (dict_get d ''en'') = [] \<and> compact_text L (dict_get d ''zh'') = []"
    then have "compact_text L (JDict d)
        = join ''; ''
           (map (\<lambda>(key, child_text). key @ '': '' @ child_text)
             (filter (\<lambda>(key, child_text). child_text \<noteq> [])
               (map (\<lambda>(key, child). (key, compact_text L child)) d)))"
      by (simp add: Let_def)
    then show "compact_text L (JDict d)
          = join ''; '' [key @ '': '' @ compact_text L child.
                         (key, child) \<leftarrow> d, compact_text L child \<noteq> []]"
      by (simp only: dict_pairs_comprehension [of "compact_text L" d])
  qed
  have d1: "compact_text L (dict_get d ''en'') \<noteq> [] \<and> compact_text L (dict_get d ''zh'') \<noteq> [] \<longrightarrow>
        compact_text L (JDict d)
          = compact_text L (dict_get d ''en'') @ '' '' @ compact_text L (dict_get d ''zh'')"
    by (simp add: nonempty_def Let_def)
  have d2: "compact_text L (dict_get d ''en'') \<noteq> [] \<and> compact_text L (dict_get d ''zh'') = [] \<longrightarrow>
        compact_text L (JDict d) = compact_text L (dict_get d ''en'')"
    by (simp add: nonempty_def Let_def)
  have d3: "compact_text L (dict_get d ''en'') = [] \<and> compact_text L (dict_get d ''zh'') \<noteq> [] \<longrightarrow>
        compact_text L (JDict d) = compact_text L (dict_get d ''zh'')"
    by (simp add: nonempty_def Let_def)
  have s: "compact_text L JNull = []" "compact_text L (JStr s) = str_strip L s"
    "compact_text L (JInt i) = py_str L (JInt i)" "compact_text L (JFloat f) = py_str L (JFloat f)"
    "compact_text L (JBool b) = py_str L (JBool b)"
    by (simp_all add: py_str_def)
  from s l d1 d2 d3 d4 show ?thesis by blast
qed

theorem compact_text_cases_witness:
  "compact_text ascii_lib sample_bilingual = ''hello 1; True''
   \<and> compact_text ascii_lib sample_plain_object = ''note: rare; count: -12''"
proof -
  let ?d = "[(''en'', JStr '' hello ''), (''zh'', JList [JInt 1, JNull, JBool True])]"
  let ?e = "[(''note'', JStr ''rare''), (''skip'', JStr ''  ''), (''count'', JInt (- 12))]"
  have en: "compact_text ascii_lib (dict_get ?d ''en'') = ''hello''" by code_simp
  have zh: "compact_text ascii_lib (dict_get ?d ''zh'') = ''1; True''" by code_simp
  from compact_text_cases [of ascii_lib "[]" 0 "[]" True "[]" ?d]
  have "compact_text ascii_lib (dict_get ?d ''en'') \<noteq> []
        \<and> compact_text ascii_lib (dict_get ?d ''zh'') \<noteq> [] \<longrightarrow>
      compact_text ascii_lib (JDict ?d)
        = compact_text ascii_lib (dict_get ?d ''en'') @ '' ''
            @ compact_text ascii_lib (dict_get ?d ''zh'')"
    by blast
  then have "''hello'' \<noteq> [] \<and> ''1; True'' \<noteq> [] \<longrightarrow>
      compact_text ascii_lib (JDict ?d) = ''hello'' @ '' '' @ ''1; True''"
    by (simp only: en zh)
  then have a: "compact_text ascii_lib (JDict ?d) = ''hello 1; True''" by simp
  have en': "compact_text ascii_lib (dict_get ?e ''en'') = []" by code_simp
  have zh': "compact_text ascii_lib (dict_get ?e ''zh'') = []" by code_simp
  have pairs: "join ''; '' [key @ '': '' @ compact_text ascii_lib child.
                         (key, child) \<leftarrow> ?e, compact_text ascii_lib child \<noteq> []]
      = ''note: rare; count: -12''"
    by code_simp
  from compact_text_cases [of ascii_lib "[]" 0 "[]" True "[]" ?e]
  have "compact_text ascii_lib (dict_get ?e ''en'') = []
        \<and> compact_text ascii_lib (dict_get ?e ''zh'') = [] \<longrightarrow>
      compact_text ascii_lib (JDict ?e)
        = join ''; '' [key @ '': '' @ compact_text ascii_lib child.
                         (key, child) \<leftarrow> ?e, compact_text ascii_lib child \<noteq> []]"
    by blast
  with en' zh' have "compact_text ascii_lib (JDict ?e)
        = join ''; '' [key @ '': '' @ compact_text ascii_lib child.
                         (key, child) \<leftarrow> ?e, compact_text ascii_lib child \<noteq> []]"
    by blast
  then have b: "compact_text ascii_lib (JDict ?e) = ''note: rare; count: -12''"
    by (simp only: pairs)
  from a b show ?thesis by (simp add: sample_bilingual_def sample_plain_object_def)
qed

text \<open>
  C10. When the \<^verbatim>\<open>summary\<close> of a record is an object, the phonetic/summary line is made
  of the phonetic text and the stripped text of the object's \<^verbatim>\<open>zh\<close> only: two records
  whose summary objects have the same \<^verbatim>\<open>zh\<close> render the same, whatever their \<^verbatim>\<open>en\<close>.
  A summary that is neither a string nor an object gives no summary text, and the record
  renders as it would without a summary.
\<close>

theorem summary_renders_zh_only:
  "(\<forall>d. dict_get payload ''summary'' = JDict d \<longrightarrow>
       phonetic_summary_blocks L payload
         = (let line_parts = nonempty [render_phonetic L (dict_get payload ''phonetic''),
                                        str_strip L (text_from_value L (dict_get d ''zh''))]
            in if line_parts \<noteq> []
               then [''<div class=\"phonetic-summary\">'' @ html_escape (join '' '' line_parts)
                       @ ''</div>'']
               else []))
   \<and> (\<forall>d d' other.
         dict_get payload ''summary'' = JDict d \<and> dict_get other ''summary'' = JDict d'
         \<and> dict_get d ''zh'' = dict_get d' ''zh''
         \<and> agree_on payload other [''phonetic'', ''definitions'', ''synonyms'', ''extra_explanation'']
         \<longrightarrow> render_entry L word payload = render_entry L word other)
   \<and> (\<forall>other.
         (\<forall>s. dict_get payload ''summary'' \<noteq> JStr s)
         \<and> (\<forall>d. dict_get payload ''summary'' \<noteq> JDict d)
         \<and> dict_get other ''summary'' = JNull
         \<and> agree_on payload other [''phonetic'', ''definitions'', ''synonyms'', ''extra_explanation'']
         \<longrightarrow> summary_text L payload = []
             \<and> render_entry L word payload = render_entry L word other)"
proof (intro conjI allI impI)
  fix d
  assume "dict_get payload ''summary'' = JDict d"
  then show "phonetic_summary_blocks L payload
         = (let line_parts = nonempty [render_phonetic L (dict_get payload ''phonetic''),
                                        str_strip L (text_from_value L (dict_get d ''zh''))]
            in if line_parts \<noteq> []
               then [''<div class=\"phonetic-summary\">'' @ html_escape (join '' '' line_parts)
                       @ ''</div>'']
               else [])"
    by (simp add: phonetic_summary_blocks_def summary_text_object)
next
  fix d d' other
  assume h: "dict_get payload ''summary'' = JDict d \<and> dict_get other ''summary'' = JDict d'
         \<and> dict_get d ''zh'' = dict_get d' ''zh''
         \<and> agree_on payload other [''phonetic'', ''definitions'', ''synonyms'', ''extra_explanation'']"
  then have "summary_text L payload = summary_text L other"
    by (simp add: summary_text_object)
  with h show "render_entry L word payload = render_entry L word other"
    by (intro render_entry_reads) simp_all
next
  fix other
  assume h: "(\<forall>s. dict_get payload ''summary'' \<noteq> JStr s)
         \<and> (\<forall>d. dict_get payload ''summary'' \<noteq> JDict d)
         \<and> dict_get other ''summary'' = JNull
         \<and> agree_on payload other [''phonetic'', ''definitions'', ''synonyms'', ''extra_explanation'']"
  then show a: "summary_text L payload = []" by (intro summary_text_other) simp_all
  from h have "summary_text L other = []" by (simp add: summary_text_def)
  with a h show "render_entry L word payload = render_entry L word other"
    by (intro render_entry_reads) simp_all
qed

theorem summary_renders_zh_only_witness:
  "phonetic_summary_blocks ascii_lib
     (summary_payload (JDict [(''en'', JStr ''to move <fast>''), (''zh'', JStr '' pao ''),
        (''note'', JStr ''n'')]))
     = [''<div class=\"phonetic-summary\">/run/ pao</div>'']
   \<and> render_entry ascii_lib ''run''
       (summary_payload (JDict [(''en'', JStr ''to move <fast>''), (''zh'', JStr '' pao '')]))
     = render_entry ascii_lib ''run''
       (summary_payload (JDict [(''zh'', JStr '' pao ''), (''en'', JStr ''other'')]))
   \<and> render_entry ascii_lib ''run'' (summary_payload (JList [JStr ''quick'']))
     = render_entry ascii_lib ''run'' (summary_payload JNull)"
proof -
  let ?d = "[(''en'', JStr ''to move <fast>''), (''zh'', JStr '' pao ''), (''note'', JStr ''n'')]"
  let ?d1 = "[(''en'', JStr ''to move <fast>''), (''zh'', JStr '' pao '')]"
  let ?d2 = "[(''zh'', JStr '' pao ''), (''en'', JStr ''other'')]"
  note t = summary_renders_zh_only
  have g: "dict_get (summary_payload v) ''summary'' = v" for v
    by (simp add: summary_payload_def dict_get_def)
  have ag: "agree_on (summary_payload u) (summary_payload v)
      [''phonetic'', ''definitions'', ''synonyms'', ''extra_explanation'']" for u v
    by (simp add: summary_payload_def dict_get_def agree_on_def)
  from t [of "summary_payload (JDict ?d)" ascii_lib "''run''"] g [of "JDict ?d"]
  have "phonetic_summary_blocks ascii_lib (summary_payload (JDict ?d))
         = (let line_parts = nonempty
                 [render_phonetic ascii_lib (dict_get (summary_payload (JDict ?d)) ''phonetic''),
                  str_strip ascii_lib (text_from_value ascii_lib (dict_get ?d ''zh''))]
            in if line_parts \<noteq> []
               then [''<div class=\"phonetic-summary\">'' @ html_escape (join '' '' line_parts)
                       @ ''</div>'']
               else [])"
    by blast
  moreover have "(let line_parts = nonempty
                 [render_phonetic ascii_lib (dict_get (summary_payload (JDict ?d)) ''phonetic''),
                  str_strip ascii_lib (text_from_value ascii_lib (dict_get ?d ''zh''))]
            in if line_parts \<noteq> []
               then [''<div class=\"phonetic-summary\">'' @ html_escape (join '' '' line_parts)
                       @ ''</div>'']
               else []) = [''<div class=\"phonetic-summary\">/run/ pao</div>'']"
    by code_simp
  ultimately have a: "phonetic_summary_blocks ascii_lib (summary_payload (JDict ?d))
      = [''<div class=\"phonetic-summary\">/run/ pao</div>'']"
    by (rule trans)
  have z: "dict_get ?d1 ''zh'' = dict_get ?d2 ''zh''" by (simp add: dict_get_def)
  from t [of "summary_payload (JDict ?d1)" ascii_lib "''run''"]
    g [of "JDict ?d1"] g [of "JDict ?d2"] z ag [of "JDict ?d1" "JDict ?d2"]
  have b: "render_entry ascii_lib ''run'' (summary_payload (JDict ?d1))
      = render_entry ascii_lib ''run'' (summary_payload (JDict ?d2))"
    by blast
  have n1: "\<forall>s. dict_get (summary_payload (JList [JStr ''quick''])) ''summary'' \<noteq> JStr s"
    and n2: "\<forall>d. dict_get (summary_payload (JList [JStr ''quick''])) ''summary'' \<noteq> JDict d"
    by (simp_all add: g)
  from t [of "summary_payload (JList [JStr ''quick''])" ascii_lib "''run''"]
    n1 n2 g [of JNull] ag [of "JList [JStr ''quick'']" JNull]
  have c: "render_entry ascii_lib ''run'' (summary_payload (JList [JStr ''quick'']))
      = render_entry ascii_lib ''run'' (summary_payload JNull)"
    by blast
  from a b c show ?thesis by blast
qed

text \<open>
  C9. The rendered entry is the concatenation of its pieces, where every literal piece
  is one of the fixed template and every text taken from the record (the word, the
  phonetic/summary line, the definition lines, the example items and the items of the
  titled sections) is embedded as \<^verbatim>\<open>html.escape\<close> returns it. An escaped text holds no
  \<^verbatim>\<open><\<close> and no \<^verbatim>\<open>>\<close>, and each \<^verbatim>\<open>&\<close> in it starts one of the five entities.
\<close>

theorem payload_text_escaped:
  "render_entry L word payload = emit_all (entry_pieces L word payload)
   \<and> templated (entry_pieces L word payload)
   \<and> Escaped word \<in> set (entry_pieces L word payload)
   \<and> (\<forall>text. CHR ''<'' \<notin> set (emit (Escaped text))
          \<and> CHR ''>'' \<notin> set (emit (Escaped text))
          \<and> entities_only (emit (Escaped text)))"
proof -
  have a: "render_entry L word payload = emit_all (entry_pieces L word payload)"
    by (simp add: render_entry_def entry_pieces_def emit_all_simps titled_section_concat
        phonetic_summary_emit definitions_emit section_emit)
  have b: "templated (entry_pieces L word payload)"
    by (simp add: entry_pieces_def templated_simps phonetic_summary_templated
        definitions_templated section_templated)
  have c: "Escaped word \<in> set (entry_pieces L word payload)"
    by (simp add: entry_pieces_def)
  have d: "\<forall>text. CHR ''<'' \<notin> set (emit (Escaped text))
          \<and> CHR ''>'' \<notin> set (emit (Escaped text))
          \<and> entities_only (emit (Escaped text))"
    by (simp add: html_escape_no_angle html_escape_entities)
  from a b c d show ?thesis by blast
qed

theorem payload_text_escaped_witness:
  "render_entry ascii_lib ''a<b'' markup_payload
     = ''<div class=\"entry\"><h1 class=\"word\">a&lt;b</h1>''
       @ ''<div class=\"phonetic-summary\">x &amp; y</div>''
       @ ''<section class=\"section\"><h2 class=\"title\">'' @ SYNONYMS_TITLE @ ''</h2>''
       @ ''<ul><li>&lt;i&gt;c&lt;/i&gt;</li></ul></section></div>''
   \<and> templated (entry_pieces ascii_lib ''a<b'' markup_payload)"
proof -
  note t = payload_text_escaped [of ascii_lib "''a<b''" markup_payload]
  have e: "emit_all (entry_pieces ascii_lib ''a<b'' markup_payload)
     = ''<div class=\"entry\"><h1 class=\"word\">a&lt;b</h1>''
       @ ''<div class=\"phonetic-summary\">x &amp; y</div>''
       @ ''<section class=\"section\"><h2 class=\"title\">'' @ SYNONYMS_TITLE @ ''</h2>''
       @ ''<ul><li>&lt;i&gt;c&lt;/i&gt;</li></ul></section></div>''"
    by code_simp
  from t have "render_entry ascii_lib ''a<b'' markup_payload
      = emit_all (entry_pieces ascii_lib ''a<b'' markup_payload)"
    by blast
  then have a: "render_entry ascii_lib ''a<b'' markup_payload
     = ''<div class=\"entry\"><h1 class=\"word\">a&lt;b</h1>''
       @ ''<div class=\"phonetic-summary\">x &amp; y</div>''
       @ ''<section class=\"section\"><h2 class=\"title\">'' @ SYNONYMS_TITLE @ ''</h2>''
       @ ''<ul><li>&lt;i&gt;c&lt;/i&gt;</li></ul></section></div>''"
    by (simp only: e)
  from t have b: "templated (entry_pieces ascii_lib ''a<b'' markup_payload)" by blast
  from a b show ?thesis by blast
qed




text \<open>
  C4. \<open>main\<close> sorts the entries by lowercased word, then word, and hands them to the
  writer in that order; the writer lays the keys out in its own. On the shard
  \<open>fruit_dir\<close> the words are handed over as \<^verbatim>\<open>Apple, apple, Banana, cherry\<close> and
  stand in the written file as \<^verbatim>\<open>Apple, Banana, apple, cherry\<close>: \<^verbatim>\<open>Banana\<close> before
  \<^verbatim>\<open>apple\<close>, although \<^verbatim>\<open>apple\<close> precedes \<^verbatim>\<open>Banana\<close> in the order of the claim.
\<close>

theorem written_order_not_case_insensitive:
  "handed_to_writer ascii_lib fruit_dir = [''Apple'', ''apple'', ''Banana'', ''cherry'']
   \<and> written_words (snd (main_mdx ascii_lib sample_mdx_args (sample_mdx_world fruit_dir)))
         (out_mdx sample_mdx_args)
       = Some [''Apple'', ''Banana'', ''apple'', ''cherry'']
   \<and> word_precedes ascii_lib ''apple'' ''Banana''"
  by code_simp

text \<open>
  What holds of the parts of a rendered entry: the phonetic/summary line appears only if
  the phonetic text or the summary text is non-empty, each titled section only if it has
  an item, and all its items are non-empty; the definitions section appears only if the
  \<^verbatim>\<open>definitions\<close> field is a non-empty list; a field that is absent, \<^verbatim>\<open>null\<close> or an
  empty list gives no part.
\<close>

lemma rendered_parts:
  "render_entry L word payload
     = ''<div class=\"entry\">'' @ ''<h1 class=\"word\">'' @ html_escape word @ ''</h1>''
       @ concat (phonetic_summary_blocks L payload)
       @ concat (definitions_blocks L payload)
       @ render_string_list_section L SYNONYMS_TITLE (dict_get payload ''synonyms'')
       @ render_string_list_section L EXTRA_EXPLANATION_TITLE
           (dict_get payload ''extra_explanation'')
       @ ''</div>''
   \<and> (phonetic_summary_blocks L payload \<noteq> [] \<longrightarrow>
        render_phonetic L (dict_get payload ''phonetic'') \<noteq> [] \<or> summary_text L payload \<noteq> [])
   \<and> (definitions_blocks L payload \<noteq> [] \<longrightarrow>
        (\<exists>definitions. dict_get payload ''definitions'' = JList definitions \<and> definitions \<noteq> []))
   \<and> (\<forall>title_zh v. render_string_list_section L title_zh v \<noteq> [] \<longrightarrow>
        section_items L v \<noteq> [] \<and> (\<forall>item \<in> set (section_items L v). item \<noteq> []))
   \<and> (dict_get payload ''phonetic'' = JNull \<and> dict_get payload ''summary'' = JNull \<longrightarrow>
        phonetic_summary_blocks L payload = [])
   \<and> (dict_get payload ''definitions'' = JNull \<or> dict_get payload ''definitions'' = JList [] \<longrightarrow>
        definitions_blocks L payload = [])
   \<and> (\<forall>title_zh v. v = JNull \<or> v = JList [] \<longrightarrow> render_string_list_section L title_zh v = [])"
proof -
  have a: "render_entry L word payload
     = ''<div class=\"entry\">'' @ ''<h1 class=\"word\">'' @ html_escape word @ ''</h1>''
       @ concat (phonetic_summary_blocks L payload)
       @ concat (definitions_blocks L payload)
       @ render_string_list_section L SYNONYMS_TITLE (dict_get payload ''synonyms'')
       @ render_string_list_section L EXTRA_EXPLANATION_TITLE
           (dict_get payload ''extra_explanation'')
       @ ''</div>''"
    by (simp add: render_entry_def titled_section_concat)
  have b: "phonetic_summary_blocks L payload \<noteq> [] \<longrightarrow>
        render_phonetic L (dict_get payload ''phonetic'') \<noteq> [] \<or> summary_text L payload \<noteq> []"
    by (auto simp: phonetic_summary_blocks_def nonempty_def Let_def split: if_splits)
  have c: "definitions_blocks L payload \<noteq> [] \<longrightarrow>
        (\<exists>definitions. dict_get payload ''definitions'' = JList definitions \<and> definitions \<noteq> [])"
    by (cases "dict_get payload ''definitions''")
      (auto simp: definitions_blocks_def split: if_splits)
  have d: "\<forall>title_zh v. render_string_list_section L title_zh v \<noteq> [] \<longrightarrow>
        section_items L v \<noteq> [] \<and> (\<forall>item \<in> set (section_items L v). item \<noteq> [])"
    using render_section_content section_items_nonempty by blast
  have e: "dict_get payload ''phonetic'' = JNull \<and> dict_get payload ''summary'' = JNull \<longrightarrow>
        phonetic_summary_blocks L payload = []"
    by (simp add: phonetic_summary_blocks_def render_phonetic_def summary_text_def nonempty_def)
  have f: "dict_get payload ''definitions'' = JNull \<or> dict_get payload ''definitions'' = JList [] \<longrightarrow>
        definitions_blocks L payload = []"
    by (auto simp: definitions_blocks_def)
  have g: "\<forall>title_zh v. v = JNull \<or> v = JList [] \<longrightarrow> render_string_list_section L title_zh v = []"
    by (auto simp: render_string_list_section_def section_items_absent)
  from a b c d e f g show ?thesis by blast
qed

text \<open>
  C6. A record whose \<^verbatim>\<open>definitions\<close> is the list \<^verbatim>\<open>[null]\<close> has no item with a
  non-empty text, and its rendering holds the definitions section with an empty list in
  it. On the same list \<open>render_string_list_section\<close> gives no section.
\<close>

theorem definitions_section_rendered_empty:
  "render_entry ascii_lib ''x'' null_definitions_payload
     = ''<div class=\"entry\"><h1 class=\"word\">x</h1>''
       @ ''<section class=\"section\"><ol></ol></section></div>''
   \<and> definitions_blocks ascii_lib null_definitions_payload
       = [''<section class=\"section\">'', ''<ol>'', ''</ol>'', ''</section>'']
   \<and> map (compact_text ascii_lib) [JNull] = [[]]
   \<and> render_string_list_section ascii_lib SYNONYMS_TITLE (JList [JNull]) = []"
  by code_simp

end
